theory Spec2Isabelle
  imports Complex_Main
begin

section \<open>Plant disease detector: the registry, the caches and the detect flow of app.py\<close>

text \<open>
  The program is one Streamlit script, \<^verbatim>\<open>app.py\<close>. Streamlit runs the script from top to
  bottom at every interaction; what survives from one run to the next are the two
  \<^verbatim>\<open>st.cache_resource\<close> caches. The model below follows the script: the constants, the
  two cached loaders, \<^verbatim>\<open>translate_text\<close>, and the flow under the "Detect Disease"
  button.

  Scores are modelled as real numbers. A finite float is a real and comparison of
  finite floats is comparison of reals, and the threshold 0.5 is a float; a NaN score
  is outside the model. A file that exists either loads, giving a JSON object of the
  shape the script expects (label to index, label to advice) or a Keras model, or makes
  the call that loads it raise.
\<close>

subsection \<open>Constants\<close>

definition MODEL_DIR :: string where
  "MODEL_DIR = ''/workspaces/Plant-Disease-Detection/models/''"

definition PLANTS :: "string list" where
  "PLANTS =
    [''apple'', ''tomato'', ''potato'', ''orange'', ''chili'', ''grape'', ''tea'',
     ''peach'', ''coffee'', ''corn'', ''cucumber'', ''jamun'', ''lemon'',
     ''mango'', ''pepper'', ''rice'', ''soybean'', ''sugarcane'', ''wheat'']"

text \<open>\<^verbatim>\<open>lang_options\<close>, a dict, in its insertion order.\<close>

definition lang_options :: "(string \<times> string) list" where
  "lang_options =
    [(''English'', ''en''), (''Hindi'', ''hi''), (''Spanish'', ''es''), (''French'', ''fr''),
     (''German'', ''de''), (''Bengali'', ''bn''), (''Tamil'', ''ta''), (''Telugu'', ''te'')]"

subsection \<open>Python and library primitives the script calls\<close>

datatype pyexn = ValueError | IndexError | KeyError | JSONDecodeError | OSError

text \<open>\<^verbatim>\<open>os.path.join(a, b)\<close> on POSIX, for two components.\<close>

definition path_join :: "string \<Rightarrow> string \<Rightarrow> string" where
  "path_join a b =
    (if b \<noteq> [] \<and> hd b = CHR ''/'' then b
     else if a = [] \<or> last a = CHR ''/'' then a @ b
     else a @ ''/'' @ b)"

text \<open>\<^verbatim>\<open>d.get(k, default)\<close> on a dict.\<close>

definition dict_get :: "('k \<rightharpoonup> 'v) \<Rightarrow> 'k \<Rightarrow> 'v \<Rightarrow> 'v" where
  "dict_get d k dflt = (case d k of Some v \<Rightarrow> v | None \<Rightarrow> dflt)"

text \<open>\<^verbatim>\<open>s.replace("_", " ")\<close>: every underscore becomes a space.\<close>

definition replace_underscores :: "string \<Rightarrow> string" where
  "replace_underscores s = map (\<lambda>c. if c = CHR ''_'' then CHR '' '' else c) s"

text \<open>
  \<^verbatim>\<open>np.argmax(pred)\<close> on a one-dimensional array: the index of the first occurrence of
  the maximum; \<^verbatim>\<open>ValueError\<close> on an empty array. \<open>argmax_scan\<close> is the scan over the
  rest of the array: \<open>i\<close> is the index of the next element, \<open>best\<close> the index of the
  largest value seen so far and \<open>bv\<close> that value; only a strictly larger value
  replaces it.
\<close>

fun argmax_scan :: "real list \<Rightarrow> nat \<Rightarrow> nat \<Rightarrow> real \<Rightarrow> nat" where
  "argmax_scan [] i best bv = best"
| "argmax_scan (v # vs) i best bv =
    (if bv < v then argmax_scan vs (Suc i) i v else argmax_scan vs (Suc i) best bv)"

fun np_argmax :: "real list \<Rightarrow> pyexn + nat" where
  "np_argmax [] = Inl ValueError"
| "np_argmax (v # vs) = Inr (argmax_scan vs 1 0 v)"

text \<open>\<^verbatim>\<open>pred[idx]\<close> for a non-negative index: \<^verbatim>\<open>IndexError\<close> out of range.\<close>

definition py_index :: "real list \<Rightarrow> nat \<Rightarrow> pyexn + real" where
  "py_index xs i = (if i < length xs then Inr (xs ! i) else Inl IndexError)"

subsection \<open>The inverse class map\<close>

text \<open>
  \<^verbatim>\<open>{v: k for k, v in class_map.items()}\<close>: the items of the decoded class map in
  their iteration order, each stored under its index; a later item overwrites an
  earlier one with the same index.
\<close>

fun invert_into :: "(int \<rightharpoonup> string) \<Rightarrow> (string \<times> int) list \<Rightarrow> (int \<rightharpoonup> string)" where
  "invert_into d [] = d"
| "invert_into d ((k, v) # items) = invert_into (d(v \<mapsto> k)) items"

definition invert_class_map :: "(string \<times> int) list \<Rightarrow> (int \<rightharpoonup> string)" where
  "invert_class_map class_map = invert_into Map.empty class_map"

subsection \<open>Effects, files and the process state\<close>

text \<open>
  The texts the script reports through \<^verbatim>\<open>st.warning\<close> and \<^verbatim>\<open>st.error\<close>: "Class map
  missing for {plant}", "Prevention file missing for {plant}", "Model not found:
  {model_path}" and "Model could not be loaded.".
\<close>

datatype message =
    Class_map_missing string
  | Prevention_file_missing string
  | Model_not_found string
  | Model_could_not_be_loaded

text \<open>
  What a run does besides computing: the two kinds of notice, the read and decoding of a
  JSON file, the deserialisation of a model file, a call of \<^verbatim>\<open>model.predict\<close> (tagged
  with the plant whose model runs) and a call of the translation service (target
  language and text).
\<close>

datatype event =
    St_warning message
  | St_error message
  | Read_json string
  | Keras_load string
  | Predict string
  | Translate string string

fun is_element :: "event \<Rightarrow> bool" where
  "is_element (St_warning m) = True"
| "is_element (St_error m) = True"
| "is_element e = False"

fun is_load :: "event \<Rightarrow> bool" where
  "is_load (Read_json p) = True"
| "is_load (Keras_load p) = True"
| "is_load e = False"

text \<open>
  What loading an existing file gives: \<open>Decoded\<close> with the loaded value, or \<open>Corrupt\<close>
  with the exception that the loading call raises on this file (\<^verbatim>\<open>json.load\<close> and the
  dict comprehension on a class map, \<^verbatim>\<open>json.load\<close> on an advice file,
  \<^verbatim>\<open>keras_load_model\<close> on a model file).
\<close>

datatype 'a content = Corrupt pyexn | Decoded 'a

text \<open>
  The world outside the script. The three file tables are keyed by path; a path is in
  the domain of a table exactly when \<^verbatim>\<open>os.path.exists\<close> holds for it. A model is the
  function from the preprocessed image \<^verbatim>\<open>x\<close> to the score vector
  \<^verbatim>\<open>model.predict(x)[0]\<close>. \<open>google_translate lang text\<close> is what
  \<^verbatim>\<open>GoogleTranslator(source='en', target=lang).translate(text)\<close> returns, \<open>None\<close> when
  it raises.
\<close>

type_synonym 'x model = "'x \<Rightarrow> real list"

record 'x env =
  class_map_files :: "string \<rightharpoonup> (string \<times> int) list content"
  prevention_files :: "string \<rightharpoonup> (string \<rightharpoonup> string) content"
  model_files :: "string \<rightharpoonup> 'x model content"
  google_translate :: "string \<Rightarrow> string \<Rightarrow> string option"

type_synonym inv_maps = "string \<rightharpoonup> (int \<rightharpoonup> string)"
type_synonym prevention_maps = "string \<rightharpoonup> (string \<rightharpoonup> string)"

text \<open>
  What survives between runs: the cache of each \<^verbatim>\<open>st.cache_resource\<close> function, and
  the trace of all events so far. A cache entry holds the returned value together with
  the notices the function emitted while it ran: Streamlit records the elements a
  cached function displays and replays them at every cache hit.
\<close>

record 'x process =
  maps_cache :: "(inv_maps \<times> prevention_maps \<times> event list) option"
  model_cache :: "string \<rightharpoonup> ('x model option \<times> event list)"
  trace :: "event list"

definition initial :: "'x process" where
  "initial = \<lparr>maps_cache = None, model_cache = Map.empty, trace = []\<rparr>"

definition emit :: "event list \<Rightarrow> 'x process \<Rightarrow> 'x process" where
  "emit evs s = s\<lparr>trace := trace s @ evs\<rparr>"

subsection \<open>The cached loaders\<close>

definition class_map_path :: "string \<Rightarrow> string" where
  "class_map_path plant = path_join MODEL_DIR (plant @ ''_class_map.json'')"

definition prevention_path :: "string \<Rightarrow> string" where
  "prevention_path plant = path_join MODEL_DIR (plant @ ''_prevention.json'')"

definition model_path :: "string \<Rightarrow> string" where
  "model_path plant_name = path_join MODEL_DIR (plant_name @ ''.h5'')"

text \<open>
  The body of the loop of \<^verbatim>\<open>load_class_and_prevention_maps\<close> for one plant, on the two
  dicts being filled and the events so far: first the class map, then the advice file.
  The function has no \<^verbatim>\<open>try\<close>: an exception of a loading call leaves the loop and the
  function at once. The result is the exception or the two dicts, with the events
  emitted up to that point.
\<close>

definition load_prevention_step ::
  "'x env \<Rightarrow> string \<Rightarrow> inv_maps \<times> prevention_maps \<times> event list
    \<Rightarrow> (pyexn + inv_maps \<times> prevention_maps) \<times> event list" where
  "load_prevention_step env plant acc =
    (case acc of (inv_maps, prevention_maps, evs) \<Rightarrow>
      (case prevention_files env (prevention_path plant) of
         Some (Decoded advice) \<Rightarrow>
           (Inr (inv_maps, prevention_maps(plant \<mapsto> advice)),
            evs @ [Read_json (prevention_path plant)])
       | Some (Corrupt e) \<Rightarrow> (Inl e, evs @ [Read_json (prevention_path plant)])
       | None \<Rightarrow>
           (Inr (inv_maps, prevention_maps(plant \<mapsto> Map.empty)),
            evs @ [St_warning (Prevention_file_missing plant)])))"

definition load_maps_step ::
  "'x env \<Rightarrow> string \<Rightarrow> inv_maps \<times> prevention_maps \<times> event list
    \<Rightarrow> (pyexn + inv_maps \<times> prevention_maps) \<times> event list" where
  "load_maps_step env plant acc =
    (case acc of (inv_maps, prevention_maps, evs) \<Rightarrow>
      (case class_map_files env (class_map_path plant) of
         Some (Decoded class_map) \<Rightarrow>
           load_prevention_step env plant
             (inv_maps(plant \<mapsto> invert_class_map class_map), prevention_maps,
              evs @ [Read_json (class_map_path plant)])
       | Some (Corrupt e) \<Rightarrow> (Inl e, evs @ [Read_json (class_map_path plant)])
       | None \<Rightarrow>
           load_prevention_step env plant
             (inv_maps(plant \<mapsto> Map.empty), prevention_maps,
              evs @ [St_warning (Class_map_missing plant)])))"

fun load_maps_loop ::
  "'x env \<Rightarrow> string list \<Rightarrow> inv_maps \<times> prevention_maps \<times> event list
    \<Rightarrow> (pyexn + inv_maps \<times> prevention_maps) \<times> event list" where
  "load_maps_loop env [] acc = (case acc of (inv_maps, prevention_maps, evs) \<Rightarrow>
      (Inr (inv_maps, prevention_maps), evs))"
| "load_maps_loop env (plant # plants) acc =
    (case load_maps_step env plant acc of
       (Inl e, evs) \<Rightarrow> (Inl e, evs)
     | (Inr (inv_maps, prevention_maps), evs) \<Rightarrow>
         load_maps_loop env plants (inv_maps, prevention_maps, evs))"

definition load_class_and_prevention_maps ::
  "'x env \<Rightarrow> (pyexn + inv_maps \<times> prevention_maps) \<times> event list" where
  "load_class_and_prevention_maps env = load_maps_loop env PLANTS (Map.empty, Map.empty, [])"

text \<open>
  \<^verbatim>\<open>load_plant_model\<close>: the model, \<open>None\<close> with an error notice when the file does not
  exist, or the exception of \<^verbatim>\<open>keras_load_model\<close>.
\<close>

definition load_plant_model ::
  "'x env \<Rightarrow> string \<Rightarrow> (pyexn + 'x model option) \<times> event list" where
  "load_plant_model env plant_name =
    (case model_files env (model_path plant_name) of
       Some (Decoded m) \<Rightarrow> (Inr (Some m), [Keras_load (model_path plant_name)])
     | Some (Corrupt e) \<Rightarrow> (Inl e, [Keras_load (model_path plant_name)])
     | None \<Rightarrow> (Inr None, [St_error (Model_not_found (model_path plant_name))]))"

text \<open>
  \<^verbatim>\<open>@st.cache_resource\<close>: at a hit the stored value is returned and the stored notices are
  replayed, the body does not run; at a miss the body runs, and when it returns its
  value and notices are stored under the arguments of the call. When the body raises,
  nothing is stored and the exception goes on to the caller.
\<close>

definition load_class_and_prevention_maps_cached ::
  "'x env \<Rightarrow> 'x process \<Rightarrow> (pyexn + inv_maps \<times> prevention_maps) \<times> 'x process" where
  "load_class_and_prevention_maps_cached env s =
    (case maps_cache s of
       Some (im, pm, notices) \<Rightarrow> (Inr (im, pm), emit notices s)
     | None \<Rightarrow>
        (case load_class_and_prevention_maps env of
           (Inr (im, pm), evs) \<Rightarrow>
             (Inr (im, pm), emit evs (s\<lparr>maps_cache := Some (im, pm, filter is_element evs)\<rparr>))
         | (Inl e, evs) \<Rightarrow> (Inl e, emit evs s)))"

definition load_plant_model_cached ::
  "'x env \<Rightarrow> string \<Rightarrow> 'x process \<Rightarrow> (pyexn + 'x model option) \<times> 'x process" where
  "load_plant_model_cached env plant_name s =
    (case model_cache s plant_name of
       Some (m, notices) \<Rightarrow> (Inr m, emit notices s)
     | None \<Rightarrow>
        (case load_plant_model env plant_name of
           (Inr m, evs) \<Rightarrow>
             (Inr m, emit evs
               (s\<lparr>model_cache := (model_cache s)(plant_name \<mapsto> (m, filter is_element evs))\<rparr>))
         | (Inl e, evs) \<Rightarrow> (Inl e, emit evs s)))"

subsection \<open>Translation\<close>

text \<open>
  \<^verbatim>\<open>translate_text(text, lang_code)\<close>, with the external calls it makes. The bare
  \<^verbatim>\<open>except:\<close> catches whatever the translator raises.
\<close>

definition translate_text :: "'x env \<Rightarrow> string \<Rightarrow> string \<Rightarrow> string \<times> event list" where
  "translate_text env text lang_code =
    (if lang_code = ''en'' \<or> text = [] then (text, [])
     else (case google_translate env lang_code text of
             Some translated \<Rightarrow> (translated, [Translate lang_code text])
           | None \<Rightarrow> (text, [Translate lang_code text])))"

subsection \<open>The detect flow and a run of the script\<close>

record result =
  idx :: nat
  confidence :: real
  predicted_class :: string
  prevention :: string
  disease_translated :: string
  prevention_translated :: string
  low_confidence_warning :: bool

text \<open>
  How a run ends: an uncaught exception, \<^verbatim>\<open>st.stop()\<close>, the display of a detection, or
  nothing to do (no button press, or no upload).
\<close>

datatype outcome = Raised pyexn | Stopped | Detected result | Awaiting_button | Awaiting_upload

text \<open>
  The body of \<^verbatim>\<open>if st.button("Detect Disease")\<close>, for the selected \<^verbatim>\<open>plant\<close>, the language
  code and the preprocessed image \<^verbatim>\<open>x\<close>. The resize, rescaling and batching of the image,
  the saving of the upload and the optional table of all probabilities are left out.
  The script's locals \<^verbatim>\<open>pred\<close>, \<^verbatim>\<open>idx\<close>, \<^verbatim>\<open>confidence\<close>, \<^verbatim>\<open>predicted_class\<close> and \<^verbatim>\<open>prevention\<close> are
  \<open>pred\<close>, \<open>i\<close>, \<open>c\<close>, \<open>label\<close> and \<open>advice\<close> here; the fields of the result carry the
  script's names. The warning "Low confidence prediction" is shown exactly when
  \<open>low_confidence_warning\<close> holds.
\<close>

definition detect ::
  "'x env \<Rightarrow> inv_maps \<Rightarrow> prevention_maps \<Rightarrow> string \<Rightarrow> string \<Rightarrow> 'x \<Rightarrow> 'x process
    \<Rightarrow> outcome \<times> 'x process" where
  "detect env inv_maps prevention_maps plant lang_code x s =
    (case load_plant_model_cached env plant s of (model, s1) \<Rightarrow>
      (case model of
         Inl e \<Rightarrow> (Raised e, s1)
       | Inr None \<Rightarrow> (Stopped, emit [St_error Model_could_not_be_loaded] s1)
       | Inr (Some m) \<Rightarrow>
          (let pred = m x; s2 = emit [Predict plant] s1 in
           case np_argmax pred of
             Inl e \<Rightarrow> (Raised e, s2)
           | Inr i \<Rightarrow>
              (case py_index pred i of
                 Inl e \<Rightarrow> (Raised e, s2)
               | Inr c \<Rightarrow>
                  (let label = dict_get (dict_get inv_maps plant Map.empty) (int i)
                                 ''Unknown Disease'';
                       advice = dict_get (dict_get prevention_maps plant Map.empty) label
                                  ''No prevention advice available.'';
                       (dt, evs1) = translate_text env (replace_underscores label) lang_code;
                       (pt, evs2) = translate_text env advice lang_code
                   in (Detected \<lparr>idx = i, confidence = c, predicted_class = label,
                         prevention = advice, disease_translated = dt,
                         prevention_translated = pt, low_confidence_warning = (c < 0.5)\<rparr>,
                       emit (evs1 @ evs2) s2))))))"

text \<open>
  \<^verbatim>\<open>st.selectbox(label, options)\<close>: the widget offers the options only and returns the
  chosen one; \<open>None\<close> when there is nothing to choose.
\<close>

definition selectbox :: "'a list \<Rightarrow> nat \<Rightarrow> 'a option" where
  "selectbox options i = (if i < length options then Some (options ! i) else None)"

record 'x ui =
  lang_choice :: nat
  plant_choice :: nat
  uploaded_file :: "'x option"
  detect_button :: bool

text \<open>One run of the script, from the call of the cached map loader to the end.\<close>

definition script_run :: "'x env \<Rightarrow> 'x ui \<Rightarrow> 'x process \<Rightarrow> outcome \<times> 'x process" where
  "script_run env u s =
    (case load_class_and_prevention_maps_cached env s of
       (Inl e, s0) \<Rightarrow> (Raised e, s0)
     | (Inr (inv_maps, prevention_maps), s0) \<Rightarrow>
      (case selectbox (map fst lang_options) (lang_choice u) of
         None \<Rightarrow> (Raised KeyError, s0)
       | Some selected_lang_name \<Rightarrow>
          (case map_of lang_options selected_lang_name of
             None \<Rightarrow> (Raised KeyError, s0)
           | Some lang_code \<Rightarrow>
              (case (uploaded_file u, selectbox PLANTS (plant_choice u)) of
                 (Some x, Some plant) \<Rightarrow>
                   (if plant \<noteq> [] then
                      (if detect_button u
                       then detect env inv_maps prevention_maps plant lang_code x s0
                       else (Awaiting_button, s0))
                    else (Awaiting_upload, s0))
               | _ \<Rightarrow> (Awaiting_upload, s0)))))"

text \<open>A session: the runs of the script one after the other, in one process.\<close>

fun session :: "'x env \<Rightarrow> 'x ui list \<Rightarrow> 'x process \<Rightarrow> 'x process" where
  "session env [] s = s"
| "session env (u # us) s = session env us (snd (script_run env u s))"

subsection \<open>Notions used in the statements\<close>

text \<open>
  The label and the advice that \<^verbatim>\<open>detect\<close> resolves for a class index: the two nested
  \<^verbatim>\<open>.get\<close> calls of the script.
\<close>

definition label_of :: "inv_maps \<Rightarrow> string \<Rightarrow> nat \<Rightarrow> string" where
  "label_of inv_maps plant i =
    dict_get (dict_get inv_maps plant Map.empty) (int i) ''Unknown Disease''"

definition advice_of :: "prevention_maps \<Rightarrow> string \<Rightarrow> string \<Rightarrow> string" where
  "advice_of prevention_maps plant label =
    dict_get (dict_get prevention_maps plant Map.empty) label
      ''No prevention advice available.''"

text \<open>
  What one round of the loader's loop stores for a plant and what it emits when neither
  file of the plant is corrupt, read off \<open>load_maps_step\<close>.
\<close>

definition loaded_inv_map :: "'x env \<Rightarrow> string \<Rightarrow> (int \<rightharpoonup> string)" where
  "loaded_inv_map env plant =
    (case class_map_files env (class_map_path plant) of
       Some (Decoded class_map) \<Rightarrow> invert_class_map class_map
     | _ \<Rightarrow> Map.empty)"

definition loaded_advice :: "'x env \<Rightarrow> string \<Rightarrow> (string \<rightharpoonup> string)" where
  "loaded_advice env plant =
    (case prevention_files env (prevention_path plant) of
       Some (Decoded advice) \<Rightarrow> advice
     | _ \<Rightarrow> Map.empty)"

definition plant_events :: "'x env \<Rightarrow> string \<Rightarrow> event list" where
  "plant_events env plant =
    [case class_map_files env (class_map_path plant) of
       Some class_map \<Rightarrow> Read_json (class_map_path plant)
     | None \<Rightarrow> St_warning (Class_map_missing plant),
     case prevention_files env (prevention_path plant) of
       Some advice \<Rightarrow> Read_json (prevention_path plant)
     | None \<Rightarrow> St_warning (Prevention_file_missing plant)]"

text \<open>The events the loader can emit for a plant.\<close>

definition metadata_events :: "string \<Rightarrow> event set" where
  "metadata_events plant =
    {Read_json (class_map_path plant), St_warning (Class_map_missing plant),
     Read_json (prevention_path plant), St_warning (Prevention_file_missing plant)}"

text \<open>No existing metadata file of the given plants is corrupt.\<close>

definition metadata_decodes :: "'x env \<Rightarrow> string list \<Rightarrow> bool" where
  "metadata_decodes env plants \<longleftrightarrow>
    (\<forall>plant \<in> set plants. \<forall>e.
       class_map_files env (class_map_path plant) \<noteq> Some (Corrupt e)
       \<and> prevention_files env (prevention_path plant) \<noteq> Some (Corrupt e))"

text \<open>The events a step adds to the trace: those of \<open>s'\<close> after those of \<open>s\<close>.\<close>

definition new_events :: "'x process \<Rightarrow> 'x process \<Rightarrow> event list" where
  "new_events s s' = drop (length (trace s)) (trace s')"

text \<open>
  The caches agree with the files: every entry is what the body of the cached function
  returns and displays for \<open>env\<close>. This holds at the start of the process and, the
  files being static, after every run (\<open>cache_consistent_session\<close> below).
\<close>

definition cache_consistent :: "'x env \<Rightarrow> 'x process \<Rightarrow> bool" where
  "cache_consistent env s \<longleftrightarrow>
    (\<forall>plant_name m notices. model_cache s plant_name = Some (m, notices) \<longrightarrow>
       (\<exists>evs. load_plant_model env plant_name = (Inr m, evs)
          \<and> notices = filter is_element evs))
    \<and> (\<forall>im pm notices. maps_cache s = Some (im, pm, notices) \<longrightarrow>
         (\<exists>evs. load_class_and_prevention_maps env = (Inr (im, pm), evs)
            \<and> notices = filter is_element evs))"

text \<open>
  No existing file of a registered plant is corrupt: every loading call of the script
  returns.
\<close>

definition files_load :: "'x env \<Rightarrow> bool" where
  "files_load env \<longleftrightarrow>
    metadata_decodes env PLANTS
    \<and> (\<forall>plant \<in> set PLANTS. \<forall>e. model_files env (model_path plant) \<noteq> Some (Corrupt e))"

text \<open>
  Every file is loaded at most once, and what has been loaded is in a cache: a model
  counts as loaded when the trace holds its \<open>Keras_load\<close>, a metadata file when the
  trace holds its \<open>Read_json\<close>.
\<close>

definition loads_cached :: "'x process \<Rightarrow> bool" where
  "loads_cached s \<longleftrightarrow>
    distinct (filter is_load (trace s))
    \<and> (\<forall>p. Keras_load p \<in> set (trace s) \<longrightarrow>
          (\<exists>plant \<in> set PLANTS. p = model_path plant \<and> model_cache s plant \<noteq> None))
    \<and> (\<forall>p. Read_json p \<in> set (trace s) \<longrightarrow> maps_cache s \<noteq> None)"

subsection \<open>Example worlds\<close>

text \<open>
  A world with the three files of "apple" only: a class map with two labels, an advice
  file keyed on the displayed form of the first label, and a model that answers every
  image with the given scores. The translation service is down.
\<close>

definition apple_env :: "real list \<Rightarrow> unit env" where
  "apple_env scores =
    \<lparr>class_map_files =
       [class_map_path ''apple'' \<mapsto> Decoded [(''Apple_scab'', 0), (''healthy'', 1)]],
     prevention_files =
       [prevention_path ''apple'' \<mapsto> Decoded [''Apple scab'' \<mapsto> ''Remove fallen leaves.'']],
     model_files = [model_path ''apple'' \<mapsto> Decoded (\<lambda>x. scores)],
     google_translate = (\<lambda>lang text. None)\<rparr>"

text \<open>A world with no file at all.\<close>

definition empty_env :: "unit env" where
  "empty_env =
    \<lparr>class_map_files = Map.empty, prevention_files = Map.empty, model_files = Map.empty,
     google_translate = (\<lambda>lang text. None)\<rparr>"

text \<open>A world where "tomato" has a model and neither of its metadata files.\<close>

definition tomato_env :: "unit env" where
  "tomato_env =
    \<lparr>class_map_files = Map.empty, prevention_files = Map.empty,
     model_files = [model_path ''tomato'' \<mapsto> Decoded (\<lambda>x. [0.2, 0.8])],
     google_translate = (\<lambda>lang text. None)\<rparr>"

text \<open>A world where the class map and the model file of "apple" exist and do not load.\<close>

definition broken_env :: "unit env" where
  "broken_env =
    \<lparr>class_map_files = [class_map_path ''apple'' \<mapsto> Corrupt JSONDecodeError],
     prevention_files = Map.empty,
     model_files = [model_path ''apple'' \<mapsto> Corrupt OSError],
     google_translate = (\<lambda>lang text. None)\<rparr>"

definition apple_maps :: inv_maps where
  "apple_maps = [''apple'' \<mapsto> [0 \<mapsto> ''Apple_scab'', 1 \<mapsto> ''healthy'']]"

definition apple_advice :: prevention_maps where
  "apple_advice = [''apple'' \<mapsto> [''Apple scab'' \<mapsto> ''Remove fallen leaves.'']]"

section \<open>Properties\<close>

subsection \<open>The arg-max scan\<close>

text \<open>
  The invariant of the scan: \<open>pre\<close> is the part of the array already seen, \<open>best\<close> is
  the first index in it that holds its largest value.
\<close>

lemma argmax_scan_first_max:
  assumes "length pre = i" "best < i" "bv = pre ! best"
    and "\<forall>j < i. pre ! j \<le> bv" and "\<forall>j < best. pre ! j < bv"
  shows "argmax_scan vs i best bv < length (pre @ vs)
       \<and> (\<forall>j < length (pre @ vs). (pre @ vs) ! j \<le> (pre @ vs) ! argmax_scan vs i best bv)
       \<and> (\<forall>j < argmax_scan vs i best bv. (pre @ vs) ! j < (pre @ vs) ! argmax_scan vs i best bv)"
  using assms
proof (induction vs arbitrary: pre i best bv)
  case Nil
  then show ?case by simp
next
  case (Cons v vs)
  have len: "length (pre @ [v]) = Suc i" using Cons.prems by simp
  show ?case
  proof (cases "bv < v")
    case True
    have a: "i < Suc i" by simp
    have b: "v = (pre @ [v]) ! i" using Cons.prems by (simp add: nth_append)
    have c: "\<forall>j < Suc i. (pre @ [v]) ! j \<le> v"
      using Cons.prems True by (auto simp: nth_append less_Suc_eq)
    have d: "\<forall>j < i. (pre @ [v]) ! j < v"
      using Cons.prems True by (auto simp: nth_append)
    from Cons.IH[OF len a b c d] True show ?thesis by simp
  next
    case False
    have a: "best < Suc i" using Cons.prems by simp
    have b: "bv = (pre @ [v]) ! best" using Cons.prems by (simp add: nth_append)
    have c: "\<forall>j < Suc i. (pre @ [v]) ! j \<le> bv"
      using Cons.prems False by (auto simp: nth_append less_Suc_eq)
    have d: "\<forall>j < best. (pre @ [v]) ! j < bv"
      using Cons.prems by (auto simp: nth_append)
    from Cons.IH[OF len a b c d] False show ?thesis by simp
  qed
qed

lemma np_argmax_first_max:
  assumes "pred \<noteq> []"
  shows "\<exists>i. np_argmax pred = Inr i \<and> i < length pred
       \<and> (\<forall>j < length pred. pred ! j \<le> pred ! i)
       \<and> (\<forall>j < i. pred ! j < pred ! i)"
proof -
  from assms obtain v vs where p: "pred = v # vs" by (cases pred) auto
  have "argmax_scan vs 1 0 v < length ([v] @ vs)
       \<and> (\<forall>j < length ([v] @ vs). ([v] @ vs) ! j \<le> ([v] @ vs) ! argmax_scan vs 1 0 v)
       \<and> (\<forall>j < argmax_scan vs 1 0 v. ([v] @ vs) ! j < ([v] @ vs) ! argmax_scan vs 1 0 v)"
    by (rule argmax_scan_first_max) auto
  then show ?thesis using p by simp
qed

subsection \<open>The three ways the detect flow ends\<close>

lemma detect_present:
  assumes "load_plant_model_cached env plant s = (Inr (Some m), s1)"
    and "np_argmax (m x) = Inr i" and "i < length (m x)"
  shows "detect env im pm plant lang x s =
    (Detected \<lparr>idx = i, confidence = m x ! i,
       predicted_class = label_of im plant i,
       prevention = advice_of pm plant (label_of im plant i),
       disease_translated =
         fst (translate_text env (replace_underscores (label_of im plant i)) lang),
       prevention_translated =
         fst (translate_text env (advice_of pm plant (label_of im plant i)) lang),
       low_confidence_warning = (m x ! i < 0.5)\<rparr>,
     emit (snd (translate_text env (replace_underscores (label_of im plant i)) lang)
           @ snd (translate_text env (advice_of pm plant (label_of im plant i)) lang))
       (emit [Predict plant] s1))"
  using assms
  by (simp add: detect_def py_index_def label_of_def advice_of_def Let_def split: prod.splits)

lemma detect_absent:
  assumes "load_plant_model_cached env plant s = (Inr None, s1)"
  shows "detect env im pm plant lang x s =
    (Stopped, emit [St_error Model_could_not_be_loaded] s1)"
  using assms by (simp add: detect_def)

lemma detect_empty:
  assumes "load_plant_model_cached env plant s = (Inr (Some m), s1)" and "m x = []"
  shows "detect env im pm plant lang x s = (Raised ValueError, emit [Predict plant] s1)"
  using assms by (simp add: detect_def)

lemma detect_raised:
  assumes "load_plant_model_cached env plant s = (Inl e, s1)"
  shows "detect env im pm plant lang x s = (Raised e, s1)"
  using assms by (simp add: detect_def)

lemma detect_Detected:
  assumes "detect env im pm plant lang x s = (Detected r, s')"
  obtains m s1 i where "load_plant_model_cached env plant s = (Inr (Some m), s1)"
    and "np_argmax (m x) = Inr i" and "i < length (m x)"
proof -
  obtain res s1 where l: "load_plant_model_cached env plant s = (res, s1)"
    by (cases "load_plant_model_cached env plant s")
  from assms l obtain mo where mo: "res = Inr mo"
    by (cases res) (auto simp: detect_def)
  from assms l mo obtain m where m: "mo = Some m"
    by (cases mo) (auto simp: detect_def)
  from assms l mo m obtain i where i: "np_argmax (m x) = Inr i"
    by (cases "np_argmax (m x)") (auto simp: detect_def Let_def)
  from assms l mo m i have "i < length (m x)"
    by (auto simp: detect_def Let_def py_index_def split: if_splits)
  with l mo m i that show thesis by blast
qed

lemma apple_model_loaded:
  "load_plant_model_cached (apple_env scores) ''apple'' initial =
    (Inr (Some (\<lambda>x. scores)),
     snd (load_plant_model_cached (apple_env scores) ''apple'' initial))"
  by (simp add: load_plant_model_cached_def load_plant_model_def apple_env_def initial_def)

subsection \<open>Resolution of the scores into index, confidence and label\<close>

text \<open>
  C1. When the predictor of the category is present and returns a non-empty score
  vector, the detect flow ends with a detection whose \<open>idx\<close> is a position of the
  maximum score, the first such position (every earlier score is strictly smaller);
  \<open>confidence\<close> is the score at that position, read as it is, with no softmax or
  rescaling; and \<open>predicted_class\<close> is what the category's index-to-label map holds for
  \<open>idx\<close>, "Unknown Disease" when the map has no such index or the category has no map.
\<close>

theorem classify_argmax_label:
  assumes "load_plant_model_cached env plant s = (Inr (Some m), s1)" and "m x \<noteq> []"
  shows "\<exists>r s'. detect env inv_maps prevention_maps plant lang_code x s = (Detected r, s')
    \<and> idx r < length (m x)
    \<and> (\<forall>j < length (m x). m x ! j \<le> m x ! idx r)
    \<and> (\<forall>j < idx r. m x ! j < m x ! idx r)
    \<and> confidence r = m x ! idx r
    \<and> predicted_class r =
        (case inv_maps plant of
           None \<Rightarrow> ''Unknown Disease''
         | Some index_to_label \<Rightarrow>
            (case index_to_label (int (idx r)) of
               None \<Rightarrow> ''Unknown Disease''
             | Some label \<Rightarrow> label))"
proof -
  from np_argmax_first_max[OF assms(2)] obtain i where
    i: "np_argmax (m x) = Inr i" "i < length (m x)"
       "\<forall>j < length (m x). m x ! j \<le> m x ! i" "\<forall>j < i. m x ! j < m x ! i"
    by blast
  show ?thesis
    unfolding detect_present[OF assms(1) i(1) i(2)]
    using i by (simp add: label_of_def dict_get_def split: option.splits)
qed

text \<open>
  The tie of the specification, scores 0.4, 0.4, 0.2: the winner is index 0, with
  confidence 0.4 and the label stored at 0.
\<close>

theorem classify_argmax_label_witness:
  "[0.4, 0.4, 0.2] \<noteq> ([] :: real list)
   \<and> fst (load_plant_model_cached (apple_env [0.4, 0.4, 0.2]) ''apple'' initial)
        = Inr (Some (\<lambda>x. [0.4, 0.4, 0.2]))
   \<and> (\<exists>r s'. detect (apple_env [0.4, 0.4, 0.2]) apple_maps apple_advice ''apple'' ''en'' () initial
                 = (Detected r, s')
          \<and> idx r = 0 \<and> confidence r = 0.4 \<and> predicted_class r = ''Apple_scab'')"
proof -
  let ?v = "[0.4, 0.4, 0.2] :: real list"
  have ne: "(\<lambda>x::unit. ?v) () \<noteq> []" by simp
  from classify_argmax_label[OF apple_model_loaded ne, of apple_maps apple_advice "''en''"]
  obtain r s' where d: "detect (apple_env ?v) apple_maps apple_advice ''apple'' ''en'' () initial
        = (Detected r, s')"
    and b: "idx r < length ?v"
    and f: "\<forall>j < idx r. ?v ! j < ?v ! idx r"
    and c: "confidence r = ?v ! idx r"
    and l: "predicted_class r =
        (case apple_maps ''apple'' of
           None \<Rightarrow> ''Unknown Disease''
         | Some index_to_label \<Rightarrow>
            (case index_to_label (int (idx r)) of
               None \<Rightarrow> ''Unknown Disease''
             | Some label \<Rightarrow> label))"
    by blast
  have z: "idx r = 0"
  proof (rule ccontr)
    assume "idx r \<noteq> 0"
    then have "0 < idx r" by simp
    with f have lt: "?v ! 0 < ?v ! idx r" by blast
    from b have "idx r = 0 \<or> idx r = 1 \<or> idx r = 2" by auto
    then show False
    proof (elim disjE)
      assume "idx r = 0"
      with lt show False by simp
    next
      assume "idx r = 1"
      with lt show False by simp
    next
      assume "idx r = 2"
      with lt show False by simp
    qed
  qed
  have "confidence r = 0.4" using c z by simp
  moreover have "predicted_class r = ''Apple_scab''" using l z by (simp add: apple_maps_def)
  moreover have "fst (load_plant_model_cached (apple_env ?v) ''apple'' initial)
        = Inr (Some (\<lambda>x. ?v))"
    by (simp add: load_plant_model_cached_def load_plant_model_def apple_env_def initial_def)
  ultimately show ?thesis using d z by auto
qed

text \<open>
  C10. For a non-empty score vector the arg-max is an index of the vector, so the
  read of the confidence at that index succeeds and the detect flow raises nothing; for
  an empty vector \<^verbatim>\<open>np.argmax\<close> raises \<^verbatim>\<open>ValueError\<close> and the flow ends with that
  exception instead of a detection.
\<close>

theorem argmax_index_in_bounds:
  "(pred \<noteq> [] \<longrightarrow>
      (\<exists>i. np_argmax pred = Inr i \<and> i < length pred \<and> py_index pred i = Inr (pred ! i)))
   \<and> np_argmax [] = Inl ValueError
   \<and> (load_plant_model_cached env plant s = (Inr (Some m), s1) \<longrightarrow>
        (m x \<noteq> [] \<longrightarrow>
          (\<forall>e. fst (detect env inv_maps prevention_maps plant lang_code x s) \<noteq> Raised e))
      \<and> (m x = [] \<longrightarrow>
          fst (detect env inv_maps prevention_maps plant lang_code x s) = Raised ValueError))"
proof -
  have "pred \<noteq> [] \<longrightarrow>
      (\<exists>i. np_argmax pred = Inr i \<and> i < length pred \<and> py_index pred i = Inr (pred ! i))"
    using np_argmax_first_max[of pred] by (auto simp: py_index_def)
  moreover have "load_plant_model_cached env plant s = (Inr (Some m), s1) \<longrightarrow>
        (m x \<noteq> [] \<longrightarrow>
          (\<forall>e. fst (detect env inv_maps prevention_maps plant lang_code x s) \<noteq> Raised e))
      \<and> (m x = [] \<longrightarrow>
          fst (detect env inv_maps prevention_maps plant lang_code x s) = Raised ValueError)"
  proof (intro impI conjI allI)
    fix e
    assume l: "load_plant_model_cached env plant s = (Inr (Some m), s1)" and ne: "m x \<noteq> []"
    from np_argmax_first_max[OF ne] obtain i where
      "np_argmax (m x) = Inr i" "i < length (m x)" by blast
    from detect_present[OF l this]
    show "fst (detect env inv_maps prevention_maps plant lang_code x s) \<noteq> Raised e" by simp
  next
    assume "load_plant_model_cached env plant s = (Inr (Some m), s1)" and "m x = []"
    from detect_empty[OF this]
    show "fst (detect env inv_maps prevention_maps plant lang_code x s) = Raised ValueError"
      by simp
  qed
  ultimately show ?thesis by simp
qed

theorem argmax_index_in_bounds_witness:
  "[0.1, 0.7, 0.2] \<noteq> ([] :: real list)
   \<and> np_argmax [0.1, 0.7, 0.2] = Inr 1 \<and> py_index [0.1, 0.7, 0.2] 1 = Inr 0.7
   \<and> fst (detect (apple_env []) apple_maps apple_advice ''apple'' ''en'' () initial)
       = Raised ValueError"
proof -
  have "np_argmax [0.1, 0.7, 0.2] = Inr 1" by simp
  moreover have "py_index [0.1, 0.7, 0.2] 1 = Inr 0.7" by (simp add: py_index_def)
  moreover have "fst (detect (apple_env []) apple_maps apple_advice ''apple'' ''en'' () initial)
       = Raised ValueError"
    using argmax_index_in_bounds[of "[0.1, 0.7, 0.2]" "apple_env []" "''apple''" initial "\<lambda>x. []"
        "snd (load_plant_model_cached (apple_env []) ''apple'' initial)" "()"
        apple_maps apple_advice "''en''"]
      apple_model_loaded[of "[]"]
    by simp
  ultimately show ?thesis by simp
qed

subsection \<open>Inversion of the class map\<close>

lemma invert_into_append:
  "invert_into d (xs @ ys) = invert_into (invert_into d xs) ys"
  by (induction xs arbitrary: d) auto

lemma invert_class_map_snoc:
  "invert_class_map (items @ [(k, v)]) = (invert_class_map items)(v \<mapsto> k)"
  by (simp add: invert_class_map_def invert_into_append)

lemma invert_class_map_find:
  "invert_class_map class_map i = map_option fst (find (\<lambda>(k, v). v = i) (rev class_map))"
proof (induction class_map rule: rev_induct)
  case Nil
  show ?case by (simp add: invert_class_map_def)
next
  case (snoc kv items)
  obtain k v where kv: "kv = (k, v)" by (cases kv)
  show ?case using snoc by (simp add: kv invert_class_map_snoc)
qed

lemma invert_class_map_Some_mem:
  "invert_class_map class_map i = Some l \<Longrightarrow> (l, i) \<in> set class_map"
proof (induction class_map rule: rev_induct)
  case Nil
  then show ?case by (simp add: invert_class_map_def)
next
  case (snoc kv items)
  obtain k v where kv: "kv = (k, v)" by (cases kv)
  show ?case using snoc by (auto simp: kv invert_class_map_snoc split: if_splits)
qed

lemma invert_class_map_injective:
  "distinct (map snd class_map) \<Longrightarrow> (l, i) \<in> set class_map
    \<Longrightarrow> invert_class_map class_map i = Some l"
proof (induction class_map rule: rev_induct)
  case Nil
  then show ?case by simp
next
  case (snoc kv items)
  obtain k v where kv: "kv = (k, v)" by (cases kv)
  show ?case using snoc by (force simp: kv invert_class_map_snoc)
qed

text \<open>
  C2. The index-to-label map is the inversion of the label-to-index items taken in
  their order with no collision check: what it holds for an index is the label of the
  last item with that index, and nothing when no item has it. So \<open>{"A":0,"B":0}\<close>
  gives \<open>{0:"B"}\<close>; and when no index occurs twice the map holds \<open>label\<close> at \<open>i\<close>
  exactly when \<open>(label, i)\<close> is an item, so \<open>{"A":0,"B":1}\<close> gives \<open>{0:"A",1:"B"}\<close>.
\<close>

theorem invert_class_map_last_write_wins:
  "invert_class_map class_map i = map_option fst (find (\<lambda>(k, v). v = i) (rev class_map))
   \<and> (distinct (map snd class_map) \<longrightarrow>
        (\<forall>label. invert_class_map class_map i = Some label \<longleftrightarrow> (label, i) \<in> set class_map))
   \<and> invert_class_map [(''A'', 0), (''B'', 0)] = [0 \<mapsto> ''B'']
   \<and> invert_class_map [(''A'', 0), (''B'', 1)] = [0 \<mapsto> ''A'', 1 \<mapsto> ''B'']"
proof -
  have "invert_class_map [(''A'', 0), (''B'', 0)] = [0 \<mapsto> ''B'']"
    by (simp add: invert_class_map_def)
  moreover have "invert_class_map [(''A'', 0), (''B'', 1)] = [0 \<mapsto> ''A'', 1 \<mapsto> ''B'']"
    by (simp add: invert_class_map_def)
  moreover have "distinct (map snd class_map) \<longrightarrow>
        (\<forall>label. invert_class_map class_map i = Some label \<longleftrightarrow> (label, i) \<in> set class_map)"
    using invert_class_map_Some_mem invert_class_map_injective by blast
  ultimately show ?thesis using invert_class_map_find by blast
qed

theorem invert_class_map_last_write_wins_witness:
  "distinct (map snd [(''Apple_scab'', 0::int), (''healthy'', 1)])
   \<and> (''healthy'', 1) \<in> set [(''Apple_scab'', 0::int), (''healthy'', 1)]
   \<and> invert_class_map [(''Apple_scab'', 0), (''healthy'', 1)] 1 = Some ''healthy''"
  using invert_class_map_last_write_wins [of "[(''Apple_scab'', 0), (''healthy'', 1)]" 1]
  by simp

subsection \<open>Translation\<close>

text \<open>
  C3. \<open>translate_text\<close> returns the text as it is, with no call of the translation
  service, when the language code is "en" or the text is empty. Otherwise it calls the
  service once, for that language and text, and returns the translation, or the text
  as it is when the call raises; the function itself has no failing outcome.
\<close>

theorem translate_text_fallback:
  "(lang_code = ''en'' \<or> text = [] \<longrightarrow> translate_text env text lang_code = (text, []))
   \<and> (lang_code \<noteq> ''en'' \<and> text \<noteq> [] \<longrightarrow>
        snd (translate_text env text lang_code) = [Translate lang_code text]
        \<and> (google_translate env lang_code text = None \<longrightarrow>
             fst (translate_text env text lang_code) = text)
        \<and> (\<forall>translated. google_translate env lang_code text = Some translated \<longrightarrow>
             fst (translate_text env text lang_code) = translated))"
  by (simp add: translate_text_def split: option.splits)

theorem translate_text_fallback_witness:
  "''hi'' \<noteq> ''en'' \<and> ''healthy'' \<noteq> []
   \<and> google_translate empty_env ''hi'' ''healthy'' = None
   \<and> translate_text empty_env ''healthy'' ''hi'' = (''healthy'', [Translate ''hi'' ''healthy''])
   \<and> translate_text empty_env ''healthy'' ''en'' = (''healthy'', [])
   \<and> translate_text empty_env [] ''hi'' = ([], [])"
proof -
  have g: "google_translate empty_env ''hi'' ''healthy'' = None" by (simp add: empty_env_def)
  have "translate_text empty_env ''healthy'' ''hi'' = (''healthy'', [Translate ''hi'' ''healthy''])"
    using translate_text_fallback[of "''hi''" "''healthy''" empty_env] g
    by (simp add: prod_eq_iff)
  moreover have "translate_text empty_env ''healthy'' ''en'' = (''healthy'', [])"
    using translate_text_fallback[of "''en''" "''healthy''" empty_env] by simp
  moreover have "translate_text empty_env [] ''hi'' = ([], [])"
    using translate_text_fallback[of "''hi''" "[]" empty_env] by simp
  ultimately show ?thesis using g by simp
qed

subsection \<open>The low-confidence warning and the advice key\<close>

lemma detect_Detected_fields:
  assumes "detect env im pm plant lang x s = (Detected r, s')"
  shows "predicted_class r = label_of im plant (idx r)"
    and "prevention r = advice_of pm plant (predicted_class r)"
    and "disease_translated r = fst (translate_text env (replace_underscores (predicted_class r)) lang)"
    and "prevention_translated r = fst (translate_text env (prevention r) lang)"
    and "low_confidence_warning r \<longleftrightarrow> confidence r < 0.5"
proof -
  from assms obtain m s1 i where l: "load_plant_model_cached env plant s = (Inr (Some m), s1)"
    and a: "np_argmax (m x) = Inr i" and b: "i < length (m x)"
    by (rule detect_Detected)
  from detect_present[OF l a b, of im pm lang] assms
  have r: "r = \<lparr>idx = i, confidence = m x ! i,
       predicted_class = label_of im plant i,
       prevention = advice_of pm plant (label_of im plant i),
       disease_translated =
         fst (translate_text env (replace_underscores (label_of im plant i)) lang),
       prevention_translated =
         fst (translate_text env (advice_of pm plant (label_of im plant i)) lang),
       low_confidence_warning = (m x ! i < 0.5)\<rparr>"
    by simp
  show "predicted_class r = label_of im plant (idx r)" by (simp add: r)
  show "prevention r = advice_of pm plant (predicted_class r)" by (simp add: r)
  show "disease_translated r = fst (translate_text env (replace_underscores (predicted_class r)) lang)"
    by (simp add: r)
  show "prevention_translated r = fst (translate_text env (prevention r) lang)" by (simp add: r)
  show "low_confidence_warning r \<longleftrightarrow> confidence r < 0.5" by (simp add: r)
qed


lemma apple_detect:
  assumes "np_argmax scores = Inr i" and "i < length scores"
  shows "detect (apple_env scores) apple_maps apple_advice ''apple'' ''en'' () initial =
    (Detected \<lparr>idx = i, confidence = scores ! i,
       predicted_class = label_of apple_maps ''apple'' i,
       prevention = advice_of apple_advice ''apple'' (label_of apple_maps ''apple'' i),
       disease_translated = replace_underscores (label_of apple_maps ''apple'' i),
       prevention_translated = advice_of apple_advice ''apple'' (label_of apple_maps ''apple'' i),
       low_confidence_warning = (scores ! i < 0.5)\<rparr>,
     emit [] (emit [Predict ''apple'']
       (snd (load_plant_model_cached (apple_env scores) ''apple'' initial))))"
  using detect_present[where env = "apple_env scores" and x = "()" and i = i
      and im = apple_maps and pm = apple_advice and lang = "''en''", OF apple_model_loaded] assms
  by (simp add: translate_text_def)

text \<open>
  The low-confidence warning, the behaviour that C7 describes. A detection carries the
  warning exactly when its confidence is below 0.5, the one threshold of every
  request; at 0.5 itself there is no warning. The label of the detection is the one
  resolved from the class index, whether or not the warning is shown. Whether the
  threshold is a named configuration constant or a literal is a property of the source
  text, where it is the literal 0.5 of the comparison; the two have the same
  definition here.
\<close>

theorem low_confidence_below_half:
  assumes "detect env inv_maps prevention_maps plant lang_code x s = (Detected r, s')"
  shows "(low_confidence_warning r \<longleftrightarrow> confidence r < 0.5)
    \<and> predicted_class r =
        dict_get (dict_get inv_maps plant Map.empty) (int (idx r)) ''Unknown Disease''"
  using detect_Detected_fields(1,5)[OF assms] by (simp add: label_of_def)

text \<open>
  Confidence 0.3 is flagged and confidence 0.5 is not, and both detections carry the
  same label.
\<close>

theorem low_confidence_below_half_witness:
  "(\<exists>r s'. detect (apple_env [0.3, 0.2]) apple_maps apple_advice ''apple'' ''en'' () initial
              = (Detected r, s')
        \<and> confidence r = 0.3 \<and> low_confidence_warning r \<and> predicted_class r = ''Apple_scab'')
   \<and> (\<exists>r s'. detect (apple_env [0.5, 0.2]) apple_maps apple_advice ''apple'' ''en'' () initial
              = (Detected r, s')
        \<and> confidence r = 0.5 \<and> \<not> low_confidence_warning r \<and> predicted_class r = ''Apple_scab'')"
proof -
  have a: "np_argmax [0.3, 0.2] = Inr 0" "0 < length [0.3, 0.2 :: real]" by simp_all
  have b: "np_argmax [0.5, 0.2] = Inr 0" "0 < length [0.5, 0.2 :: real]" by simp_all
  have l: "label_of apple_maps ''apple'' 0 = ''Apple_scab''"
    by (simp add: label_of_def apple_maps_def dict_get_def)
  from apple_detect[OF a] obtain r1 s1 where
    d1: "detect (apple_env [0.3, 0.2]) apple_maps apple_advice ''apple'' ''en'' () initial
          = (Detected r1, s1)"
    and c1: "confidence r1 = 0.3" and p1: "predicted_class r1 = ''Apple_scab''"
    by (simp add: l)
  from apple_detect[OF b] obtain r2 s2 where
    d2: "detect (apple_env [0.5, 0.2]) apple_maps apple_advice ''apple'' ''en'' () initial
          = (Detected r2, s2)"
    and c2: "confidence r2 = 0.5" and p2: "predicted_class r2 = ''Apple_scab''"
    by (simp add: l)
  from low_confidence_below_half[OF d1] c1 have w1: "low_confidence_warning r1" by simp
  from low_confidence_below_half[OF d2] c2 have w2: "\<not> low_confidence_warning r2" by simp
  from d1 c1 p1 w1 d2 c2 p2 w2 show ?thesis by blast
qed



subsection \<open>Traces and caches\<close>

lemma trace_emit [simp]: "trace (emit evs s) = trace s @ evs"
  by (simp add: emit_def)

lemma model_cache_emit [simp]: "model_cache (emit evs s) = model_cache s"
  by (simp add: emit_def)

lemma maps_cache_emit [simp]: "maps_cache (emit evs s) = maps_cache s"
  by (simp add: emit_def)

lemma new_events_append [simp]: "trace s' = trace s @ evs \<Longrightarrow> new_events s s' = evs"
  by (simp add: new_events_def)

lemma no_load_in_elements [simp]: "filter is_load (filter is_element evs) = []"
proof (induction evs)
  case Nil
  show ?case by simp
next
  case (Cons e evs)
  then show ?case by (cases e) simp_all
qed

subsection \<open>What the map loader computes\<close>

lemma plant_events_metadata: "set (plant_events env plant) \<subseteq> metadata_events plant"
  by (auto simp: plant_events_def metadata_events_def split: option.splits)

lemma load_prevention_step_Inr:
  assumes "load_prevention_step env plant (im, pm, evs) = (Inr (im', pm'), evs')"
  shows "im' = im" and "pm' = pm(plant \<mapsto> loaded_advice env plant)"
    and "evs' = evs @ [case prevention_files env (prevention_path plant) of
                        Some advice \<Rightarrow> Read_json (prevention_path plant)
                      | None \<Rightarrow> St_warning (Prevention_file_missing plant)]"
    and "\<forall>e. prevention_files env (prevention_path plant) \<noteq> Some (Corrupt e)"
  using assms
  by (auto simp: load_prevention_step_def loaded_advice_def split: option.splits content.splits)

lemma load_prevention_step_Inl:
  assumes "load_prevention_step env plant (im, pm, evs) = (Inl e, evs')"
  shows "prevention_files env (prevention_path plant) = Some (Corrupt e)"
    and "evs' = evs @ [Read_json (prevention_path plant)]"
  using assms
  by (auto simp: load_prevention_step_def split: option.splits content.splits)

lemma load_maps_step_Inr:
  assumes "load_maps_step env plant (im, pm, evs) = (Inr (im', pm'), evs')"
  shows "im' = im(plant \<mapsto> loaded_inv_map env plant)"
    and "pm' = pm(plant \<mapsto> loaded_advice env plant)"
    and "evs' = evs @ plant_events env plant"
    and "metadata_decodes env [plant]"
proof -
  let ?c = "case class_map_files env (class_map_path plant) of
              Some class_map \<Rightarrow> Read_json (class_map_path plant)
            | None \<Rightarrow> St_warning (Class_map_missing plant)"
  from assms have nc: "\<forall>e. class_map_files env (class_map_path plant) \<noteq> Some (Corrupt e)"
    by (auto simp: load_maps_step_def split: option.splits content.splits)
  from assms have p: "load_prevention_step env plant
      (im(plant \<mapsto> loaded_inv_map env plant), pm, evs @ [?c]) = (Inr (im', pm'), evs')"
    by (auto simp: load_maps_step_def loaded_inv_map_def split: option.splits content.splits)
  note q = load_prevention_step_Inr[OF p]
  show "im' = im(plant \<mapsto> loaded_inv_map env plant)" by (rule q(1))
  show "pm' = pm(plant \<mapsto> loaded_advice env plant)" by (rule q(2))
  show "evs' = evs @ plant_events env plant" using q(3) by (simp add: plant_events_def)
  show "metadata_decodes env [plant]" using nc q(4) by (simp add: metadata_decodes_def)
qed

lemma load_maps_step_Inl:
  assumes "load_maps_step env plant (im, pm, evs) = (Inl e, evs')"
  shows "class_map_files env (class_map_path plant) = Some (Corrupt e)
      \<or> prevention_files env (prevention_path plant) = Some (Corrupt e)"
    and "\<exists>new. evs' = evs @ new \<and> set new \<subseteq> metadata_events plant"
proof -
  let ?c = "case class_map_files env (class_map_path plant) of
              Some class_map \<Rightarrow> Read_json (class_map_path plant)
            | None \<Rightarrow> St_warning (Class_map_missing plant)"
  from assms have d: "(class_map_files env (class_map_path plant) = Some (Corrupt e)
        \<and> evs' = evs @ [Read_json (class_map_path plant)])
      \<or> (\<exists>im1. load_prevention_step env plant (im1, pm, evs @ [?c]) = (Inl e, evs'))"
    by (auto simp: load_maps_step_def split: option.splits content.splits)
  then show "class_map_files env (class_map_path plant) = Some (Corrupt e)
      \<or> prevention_files env (prevention_path plant) = Some (Corrupt e)"
    using load_prevention_step_Inl(1) by blast
  have c: "?c \<in> metadata_events plant"
    by (simp add: metadata_events_def split: option.splits)
  from d show "\<exists>new. evs' = evs @ new \<and> set new \<subseteq> metadata_events plant"
  proof
    assume "class_map_files env (class_map_path plant) = Some (Corrupt e)
        \<and> evs' = evs @ [Read_json (class_map_path plant)]"
    then show ?thesis by (simp add: metadata_events_def)
  next
    assume "\<exists>im1. load_prevention_step env plant (im1, pm, evs @ [?c]) = (Inl e, evs')"
    then obtain im1 where "load_prevention_step env plant (im1, pm, evs @ [?c]) = (Inl e, evs')"
      by blast
    from load_prevention_step_Inl(2)[OF this]
    have "evs' = evs @ [?c, Read_json (prevention_path plant)]" by simp
    moreover have "set [?c, Read_json (prevention_path plant)] \<subseteq> metadata_events plant"
      using c by (simp add: metadata_events_def)
    ultimately show ?thesis by blast
  qed
qed

lemma load_maps_step_ok:
  assumes "metadata_decodes env [plant]"
  shows "load_maps_step env plant (im, pm, evs) =
    (Inr (im(plant \<mapsto> loaded_inv_map env plant), pm(plant \<mapsto> loaded_advice env plant)),
     evs @ plant_events env plant)"
  using assms
  by (auto simp: metadata_decodes_def load_maps_step_def load_prevention_step_def
      loaded_inv_map_def loaded_advice_def plant_events_def
      split: option.splits content.splits)

lemma load_maps_loop_ok:
  assumes "metadata_decodes env plants"
  shows "load_maps_loop env plants (im, pm, evs) =
    (Inr ((\<lambda>q. if q \<in> set plants then Some (loaded_inv_map env q) else im q),
          (\<lambda>q. if q \<in> set plants then Some (loaded_advice env q) else pm q)),
     evs @ concat (map (plant_events env) plants))"
  using assms
proof (induction plants arbitrary: im pm evs)
  case Nil
  show ?case by simp
next
  case (Cons p plants)
  from Cons.prems have a: "metadata_decodes env [p]" and b: "metadata_decodes env plants"
    by (simp_all add: metadata_decodes_def)
  show ?case
    by (simp add: load_maps_step_ok[OF a] Cons.IH[OF b]) (auto simp: fun_eq_iff)
qed

lemma load_maps_loop_Inr:
  assumes "load_maps_loop env plants (im, pm, evs) = (Inr (im', pm'), evs')"
  shows "metadata_decodes env plants"
  using assms
proof (induction plants arbitrary: im pm evs)
  case Nil
  show ?case by (simp add: metadata_decodes_def)
next
  case (Cons p plants)
  obtain r evs1 where s: "load_maps_step env p (im, pm, evs) = (r, evs1)"
    by (cases "load_maps_step env p (im, pm, evs)")
  from Cons.prems s obtain im1 pm1 where r: "r = Inr (im1, pm1)"
    by (cases r) auto
  from Cons.prems s r have "load_maps_loop env plants (im1, pm1, evs1) = (Inr (im', pm'), evs')"
    by simp
  from Cons.IH[OF this] load_maps_step_Inr(4)[OF s[unfolded r]]
  show ?case by (simp add: metadata_decodes_def)
qed

lemma load_maps_loop_events:
  "\<exists>new. snd (load_maps_loop env plants (im, pm, evs)) = evs @ new
     \<and> (\<forall>x \<in> set new. \<exists>plant \<in> set plants. x \<in> metadata_events plant)"
proof (induction plants arbitrary: im pm evs)
  case Nil
  show ?case by simp
next
  case (Cons p plants)
  obtain r evs1 where s: "load_maps_step env p (im, pm, evs) = (r, evs1)"
    by (cases "load_maps_step env p (im, pm, evs)")
  show ?case
  proof (cases r)
    case (Inl e)
    from load_maps_step_Inl(2)[OF s[unfolded Inl]] obtain new where
      "evs1 = evs @ new" "set new \<subseteq> metadata_events p" by blast
    then show ?thesis using s Inl by auto
  next
    case (Inr v)
    then obtain im1 pm1 where r: "r = Inr (im1, pm1)" by (cases v) auto
    from load_maps_step_Inr(3)[OF s[unfolded r]]
    have e1: "evs1 = evs @ plant_events env p" .
    from Cons.IH[of im1 pm1 evs1] obtain new where
      n: "snd (load_maps_loop env plants (im1, pm1, evs1)) = evs1 @ new"
      and k: "\<forall>x \<in> set new. \<exists>plant \<in> set plants. x \<in> metadata_events plant"
      by blast
    have "snd (load_maps_loop env (p # plants) (im, pm, evs)) = evs @ (plant_events env p @ new)"
      using s r n e1 by simp
    moreover have "\<forall>x \<in> set (plant_events env p @ new).
        \<exists>plant \<in> set (p # plants). x \<in> metadata_events plant"
      using k plant_events_metadata[of env p] by auto
    ultimately show ?thesis by blast
  qed
qed

lemma load_maps_ok:
  assumes "metadata_decodes env PLANTS"
  shows "load_class_and_prevention_maps env =
    (Inr ((\<lambda>q. if q \<in> set PLANTS then Some (loaded_inv_map env q) else None),
          (\<lambda>q. if q \<in> set PLANTS then Some (loaded_advice env q) else None)),
     concat (map (plant_events env) PLANTS))"
  by (simp add: load_class_and_prevention_maps_def load_maps_loop_ok[OF assms])

lemma load_maps_Inr:
  assumes "load_class_and_prevention_maps env = (Inr (im, pm), evs)"
  shows "metadata_decodes env PLANTS"
    and "im = (\<lambda>q. if q \<in> set PLANTS then Some (loaded_inv_map env q) else None)"
    and "pm = (\<lambda>q. if q \<in> set PLANTS then Some (loaded_advice env q) else None)"
    and "evs = concat (map (plant_events env) PLANTS)"
proof -
  show d: "metadata_decodes env PLANTS"
    using assms load_maps_loop_Inr unfolding load_class_and_prevention_maps_def by blast
  from load_maps_ok[OF d] assms
  show "im = (\<lambda>q. if q \<in> set PLANTS then Some (loaded_inv_map env q) else None)"
    and "pm = (\<lambda>q. if q \<in> set PLANTS then Some (loaded_advice env q) else None)"
    and "evs = concat (map (plant_events env) PLANTS)"
    by simp_all
qed

lemma load_maps_events:
  assumes "x \<in> set (snd (load_class_and_prevention_maps env))"
  shows "\<exists>plant \<in> set PLANTS. x \<in> metadata_events plant"
  using load_maps_loop_events[of env PLANTS Map.empty Map.empty "[]"] assms
  by (auto simp: load_class_and_prevention_maps_def)

lemma plant_events_mem:
  "plant \<in> set plants \<Longrightarrow> e \<in> set (plant_events env plant)
    \<Longrightarrow> e \<in> set (concat (map (plant_events env) plants))"
  by auto

subsection \<open>Paths of the registered plants\<close>

lemma path_join_MODEL_DIR:
  "b = [] \<or> hd b \<noteq> CHR ''/'' \<Longrightarrow> path_join MODEL_DIR b = MODEL_DIR @ b"
  by (auto simp: path_join_def MODEL_DIR_def)

lemma PLANTS_relative: "plant \<in> set PLANTS \<Longrightarrow> plant \<noteq> [] \<and> hd plant \<noteq> CHR ''/''"
  by (auto simp: PLANTS_def)

lemma model_path_PLANTS:
  "plant \<in> set PLANTS \<Longrightarrow> model_path plant = MODEL_DIR @ plant @ ''.h5''"
  using PLANTS_relative[of plant] by (simp add: model_path_def path_join_MODEL_DIR)

lemma class_map_path_PLANTS:
  "plant \<in> set PLANTS \<Longrightarrow> class_map_path plant = MODEL_DIR @ plant @ ''_class_map.json''"
  using PLANTS_relative[of plant] by (simp add: class_map_path_def path_join_MODEL_DIR)

lemma prevention_path_PLANTS:
  "plant \<in> set PLANTS \<Longrightarrow> prevention_path plant = MODEL_DIR @ plant @ ''_prevention.json''"
  using PLANTS_relative[of plant] by (simp add: prevention_path_def path_join_MODEL_DIR)

lemma model_path_inj:
  "p \<in> set PLANTS \<Longrightarrow> q \<in> set PLANTS \<Longrightarrow> model_path p = model_path q \<Longrightarrow> p = q"
  by (simp add: model_path_PLANTS)

lemma class_map_path_inj:
  "p \<in> set PLANTS \<Longrightarrow> q \<in> set PLANTS \<Longrightarrow> class_map_path p = class_map_path q \<Longrightarrow> p = q"
  by (simp add: class_map_path_PLANTS)

lemma prevention_path_inj:
  "p \<in> set PLANTS \<Longrightarrow> q \<in> set PLANTS \<Longrightarrow> prevention_path p = prevention_path q \<Longrightarrow> p = q"
  by (simp add: prevention_path_PLANTS)

lemma class_map_path_not_prevention_path:
  assumes "p \<in> set PLANTS" and "q \<in> set PLANTS"
  shows "class_map_path p \<noteq> prevention_path q"
proof
  assume "class_map_path p = prevention_path q"
  then have "p @ ''_class_map.json'' = q @ ''_prevention.json''"
    using assms by (simp add: class_map_path_PLANTS prevention_path_PLANTS)
  then have "take 6 (rev (p @ ''_class_map.json'')) = take 6 (rev (q @ ''_prevention.json''))"
    by simp
  then show False by simp
qed

lemma distinct_PLANTS: "distinct PLANTS"
  by (simp add: PLANTS_def)

subsection \<open>The cached loaders\<close>

lemma load_plant_model_absent:
  "model_files env (model_path plant_name) = None \<Longrightarrow>
    load_plant_model env plant_name =
      (Inr None, [St_error (Model_not_found (model_path plant_name))])"
  by (simp add: load_plant_model_def)

lemma load_plant_model_events:
  "snd (load_plant_model env plant_name) = [Keras_load (model_path plant_name)]
   \<or> snd (load_plant_model env plant_name) = [St_error (Model_not_found (model_path plant_name))]"
  by (simp add: load_plant_model_def split: option.splits content.splits)

lemma load_plant_model_cached_hit:
  assumes "model_cache s plant_name = Some (m, notices)"
  shows "load_plant_model_cached env plant_name s = (Inr m, emit notices s)"
  using assms by (simp add: load_plant_model_cached_def)

lemma load_plant_model_cached_miss:
  assumes "model_cache s plant_name = None"
  shows "fst (load_plant_model_cached env plant_name s) = fst (load_plant_model env plant_name)"
    and "trace (snd (load_plant_model_cached env plant_name s)) =
          trace s @ snd (load_plant_model env plant_name)"
    and "model_cache (snd (load_plant_model_cached env plant_name s)) =
          (case fst (load_plant_model env plant_name) of
             Inr m \<Rightarrow> (model_cache s)(plant_name \<mapsto>
                        (m, filter is_element (snd (load_plant_model env plant_name))))
           | Inl e \<Rightarrow> model_cache s)"
    and "maps_cache (snd (load_plant_model_cached env plant_name s)) = maps_cache s"
  using assms
  by (auto simp: load_plant_model_cached_def split: prod.splits sum.splits)

lemma load_maps_cached_hit:
  assumes "maps_cache s = Some (im, pm, notices)"
  shows "load_class_and_prevention_maps_cached env s = (Inr (im, pm), emit notices s)"
  using assms by (simp add: load_class_and_prevention_maps_cached_def)

lemma load_maps_cached_miss:
  assumes "maps_cache s = None"
  shows "fst (load_class_and_prevention_maps_cached env s) =
          fst (load_class_and_prevention_maps env)"
    and "trace (snd (load_class_and_prevention_maps_cached env s)) =
          trace s @ snd (load_class_and_prevention_maps env)"
    and "maps_cache (snd (load_class_and_prevention_maps_cached env s)) =
          (case fst (load_class_and_prevention_maps env) of
             Inr (im, pm) \<Rightarrow>
               Some (im, pm, filter is_element (snd (load_class_and_prevention_maps env)))
           | Inl e \<Rightarrow> None)"
    and "model_cache (snd (load_class_and_prevention_maps_cached env s)) = model_cache s"
  using assms
  by (auto simp: load_class_and_prevention_maps_cached_def split: prod.splits sum.splits)

text \<open>With consistent caches a cached call returns what the body computes from the files.\<close>

lemma cache_consistent_initial: "cache_consistent env initial"
  by (simp add: cache_consistent_def initial_def)

lemma cache_consistent_emit [simp]: "cache_consistent env (emit evs s) = cache_consistent env s"
  by (simp add: cache_consistent_def)

lemma cache_consistent_model:
  "cache_consistent env s \<Longrightarrow> model_cache s plant_name = Some (m, notices) \<Longrightarrow>
    load_plant_model env plant_name = (Inr m, snd (load_plant_model env plant_name))
    \<and> notices = filter is_element (snd (load_plant_model env plant_name))"
  unfolding cache_consistent_def by fastforce

lemma cache_consistent_maps:
  "cache_consistent env s \<Longrightarrow> maps_cache s = Some (im, pm, notices) \<Longrightarrow>
    load_class_and_prevention_maps env = (Inr (im, pm), snd (load_class_and_prevention_maps env))
    \<and> notices = filter is_element (snd (load_class_and_prevention_maps env))"
  unfolding cache_consistent_def by fastforce

lemma cached_model_value:
  assumes "cache_consistent env s"
  shows "fst (load_plant_model_cached env plant_name s) = fst (load_plant_model env plant_name)"
proof (cases "model_cache s plant_name")
  case None
  then show ?thesis by (rule load_plant_model_cached_miss(1))
next
  case (Some entry)
  then obtain m notices where e: "model_cache s plant_name = Some (m, notices)"
    by (cases entry) auto
  from cache_consistent_model[OF assms e] have "fst (load_plant_model env plant_name) = Inr m"
    by (simp add: prod_eq_iff)
  then show ?thesis by (simp add: load_plant_model_cached_hit[OF e])
qed

lemma cached_model_trace:
  assumes "cache_consistent env s"
  shows "trace (snd (load_plant_model_cached env plant_name s)) = trace s @
    (if model_cache s plant_name = None then snd (load_plant_model env plant_name)
     else filter is_element (snd (load_plant_model env plant_name)))"
proof (cases "model_cache s plant_name")
  case None
  then show ?thesis by (simp add: load_plant_model_cached_miss(2))
next
  case (Some entry)
  then obtain m notices where e: "model_cache s plant_name = Some (m, notices)"
    by (cases entry) auto
  from cache_consistent_model[OF assms e] show ?thesis
    by (simp add: load_plant_model_cached_hit[OF e] e)
qed

lemma cached_model_consistent:
  assumes "cache_consistent env s"
  shows "cache_consistent env (snd (load_plant_model_cached env plant_name s))"
proof (cases "model_cache s plant_name")
  case None
  let ?s' = "snd (load_plant_model_cached env plant_name s)"
  note m = load_plant_model_cached_miss[OF None, of env]
  have "\<forall>q m notices. model_cache ?s' q = Some (m, notices) \<longrightarrow>
       (\<exists>evs. load_plant_model env q = (Inr m, evs) \<and> notices = filter is_element evs)"
  proof (intro allI impI)
    fix q mq notices
    assume h: "model_cache ?s' q = Some (mq, notices)"
    show "\<exists>evs. load_plant_model env q = (Inr mq, evs) \<and> notices = filter is_element evs"
    proof (cases "fst (load_plant_model env plant_name)")
      case (Inl e)
      with h m(3) have "model_cache s q = Some (mq, notices)" by simp
      with assms show ?thesis unfolding cache_consistent_def by blast
    next
      case (Inr v)
      show ?thesis
      proof (cases "q = plant_name")
        case True
        with h m(3) Inr have "mq = v"
          and "notices = filter is_element (snd (load_plant_model env plant_name))"
          by simp_all
        with Inr True show ?thesis by (auto simp: prod_eq_iff)
      next
        case False
        with h m(3) Inr have "model_cache s q = Some (mq, notices)" by simp
        with assms show ?thesis unfolding cache_consistent_def by blast
      qed
    qed
  qed
  moreover have "\<forall>im pm notices. maps_cache ?s' = Some (im, pm, notices) \<longrightarrow>
         (\<exists>evs. load_class_and_prevention_maps env = (Inr (im, pm), evs)
            \<and> notices = filter is_element evs)"
    using assms m(4) unfolding cache_consistent_def by simp
  ultimately show ?thesis unfolding cache_consistent_def by blast
next
  case (Some entry)
  then obtain m notices where e: "model_cache s plant_name = Some (m, notices)"
    by (cases entry) auto
  with assms show ?thesis by (simp add: load_plant_model_cached_hit[OF e])
qed

lemma cached_maps_value:
  assumes "cache_consistent env s"
  shows "fst (load_class_and_prevention_maps_cached env s) =
    fst (load_class_and_prevention_maps env)"
proof (cases "maps_cache s")
  case None
  then show ?thesis by (rule load_maps_cached_miss(1))
next
  case (Some entry)
  then obtain im pm notices where e: "maps_cache s = Some (im, pm, notices)"
    by (cases entry) auto
  from cache_consistent_maps[OF assms e]
  have "fst (load_class_and_prevention_maps env) = Inr (im, pm)"
    by (simp add: prod_eq_iff)
  then show ?thesis by (simp add: load_maps_cached_hit[OF e])
qed

lemma cached_maps_trace:
  assumes "cache_consistent env s"
  shows "trace (snd (load_class_and_prevention_maps_cached env s)) = trace s @
    (if maps_cache s = None then snd (load_class_and_prevention_maps env)
     else filter is_element (snd (load_class_and_prevention_maps env)))"
proof (cases "maps_cache s")
  case None
  then show ?thesis by (simp add: load_maps_cached_miss(2))
next
  case (Some entry)
  then obtain im pm notices where e: "maps_cache s = Some (im, pm, notices)"
    by (cases entry) auto
  from cache_consistent_maps[OF assms e] show ?thesis
    by (simp add: load_maps_cached_hit[OF e] e)
qed

lemma cached_maps_consistent:
  assumes "cache_consistent env s"
  shows "cache_consistent env (snd (load_class_and_prevention_maps_cached env s))"
proof (cases "maps_cache s")
  case None
  let ?s' = "snd (load_class_and_prevention_maps_cached env s)"
  note m = load_maps_cached_miss[OF None, of env]
  have "\<forall>im pm notices. maps_cache ?s' = Some (im, pm, notices) \<longrightarrow>
         (\<exists>evs. load_class_and_prevention_maps env = (Inr (im, pm), evs)
            \<and> notices = filter is_element evs)"
    unfolding m(3) by (auto simp: prod_eq_iff split: sum.splits)
  moreover have "\<forall>q mq notices. model_cache ?s' q = Some (mq, notices) \<longrightarrow>
       (\<exists>evs. load_plant_model env q = (Inr mq, evs) \<and> notices = filter is_element evs)"
    using assms m(4) unfolding cache_consistent_def by simp
  ultimately show ?thesis unfolding cache_consistent_def by blast
next
  case (Some entry)
  then obtain im pm notices where e: "maps_cache s = Some (im, pm, notices)"
    by (cases entry) auto
  with assms show ?thesis by (simp add: load_maps_cached_hit[OF e])
qed

subsection \<open>A category without a predictor\<close>

text \<open>
  C4. When the model file of a category does not exist, its predictor is \<open>None\<close>, at
  the first request and at every later one, and the detect flow stops: the run emits
  the error "Model not found" with the path of the missing model and the error "Model
  could not be loaded", and nothing else; in particular it never calls the predictor.
\<close>

theorem absent_predictor_stops:
  assumes "cache_consistent env s" and "model_files env (model_path plant) = None"
  shows "fst (load_plant_model_cached env plant s) = Inr None
    \<and> fst (detect env inv_maps prevention_maps plant lang_code x s) = Stopped
    \<and> new_events s (snd (detect env inv_maps prevention_maps plant lang_code x s)) =
        [St_error (Model_not_found (model_path plant)), St_error Model_could_not_be_loaded]
    \<and> (\<forall>q. Predict q \<notin>
          set (new_events s (snd (detect env inv_maps prevention_maps plant lang_code x s))))"
proof -
  obtain s1 where s1: "s1 = snd (load_plant_model_cached env plant s)" by simp
  note b = load_plant_model_absent[OF assms(2)]
  have v: "fst (load_plant_model_cached env plant s) = Inr None"
    using cached_model_value[OF assms(1), of plant] by (simp add: b)
  then have l: "load_plant_model_cached env plant s = (Inr None, s1)"
    using s1 by (simp add: prod_eq_iff)
  have t: "trace s1 = trace s @ [St_error (Model_not_found (model_path plant))]"
    using cached_model_trace[OF assms(1), of plant] s1 by (simp add: b)
  have d: "detect env inv_maps prevention_maps plant lang_code x s =
      (Stopped, emit [St_error Model_could_not_be_loaded] s1)"
    by (rule detect_absent[OF l])
  have n: "new_events s (snd (detect env inv_maps prevention_maps plant lang_code x s)) =
        [St_error (Model_not_found (model_path plant)), St_error Model_could_not_be_loaded]"
    by (rule new_events_append) (simp add: d t)
  show ?thesis using v d n by simp
qed

theorem absent_predictor_stops_witness:
  "cache_consistent empty_env initial
   \<and> model_files empty_env (model_path ''apple'') = None
   \<and> fst (detect empty_env Map.empty Map.empty ''apple'' ''en'' () initial) = Stopped
   \<and> new_events initial (snd (detect empty_env Map.empty Map.empty ''apple'' ''en'' () initial)) =
        [St_error (Model_not_found (model_path ''apple'')), St_error Model_could_not_be_loaded]"
proof -
  have a: "cache_consistent empty_env initial" by (rule cache_consistent_initial)
  have b: "model_files empty_env (model_path ''apple'') = None" by (simp add: empty_env_def)
  from absent_predictor_stops[OF a b, of Map.empty Map.empty "''en''" "()"] a b
  show ?thesis by simp
qed

subsection \<open>Missing metadata files\<close>

lemma loaded_maps_at:
  assumes "plant \<in> set PLANTS" and "load_class_and_prevention_maps env = (Inr (im, pm), evs)"
  shows "im plant = Some (loaded_inv_map env plant)"
    and "pm plant = Some (loaded_advice env plant)"
    and "set (plant_events env plant) \<subseteq> set evs"
    and "\<forall>m. St_error m \<notin> set evs"
proof -
  note l = load_maps_Inr[OF assms(2)]
  show "im plant = Some (loaded_inv_map env plant)" using assms(1) by (simp add: l(2))
  show "pm plant = Some (loaded_advice env plant)" using assms(1) by (simp add: l(3))
  show "set (plant_events env plant) \<subseteq> set evs" using assms(1) by (auto simp: l(4))
  show "\<forall>m. St_error m \<notin> set evs"
  proof (intro allI notI)
    fix m
    assume "St_error m \<in> set evs"
    then have "St_error m \<in> set (snd (load_class_and_prevention_maps env))"
      by (simp add: assms(2))
    from load_maps_events[OF this] show False by (auto simp: metadata_events_def)
  qed
qed

lemma tomato_model_loaded:
  "load_plant_model_cached tomato_env ''tomato'' initial =
    (Inr (Some (\<lambda>x. [0.2, 0.8])), snd (load_plant_model_cached tomato_env ''tomato'' initial))"
  by (simp add: load_plant_model_cached_def load_plant_model_def tomato_env_def initial_def)

text \<open>
  C8. For a registered category, a missing class-map file leaves the category's
  index-to-label map empty and a missing advice file leaves its advice map empty, each
  reported by an \<^verbatim>\<open>st.warning\<close> that names the category; the other map of the category
  is loaded as usual, and the loader emits no error. A request for the category, its
  predictor present and the scores non-empty, still ends with a detection: the label
  is "Unknown Disease" when the class map is missing and the advice "No prevention
  advice available." when the advice file is missing. A missing file never makes the
  loader fail: it returns its two dicts whenever no existing metadata file is corrupt.
\<close>

theorem missing_metadata_degrades:
  assumes "plant \<in> set PLANTS"
  shows "(metadata_decodes env PLANTS \<longrightarrow>
        (\<exists>im pm evs. load_class_and_prevention_maps env = (Inr (im, pm), evs)))
    \<and> (\<forall>im pm evs. load_class_and_prevention_maps env = (Inr (im, pm), evs) \<longrightarrow>
        (class_map_files env (class_map_path plant) = None \<longrightarrow>
          im plant = Some Map.empty \<and> St_warning (Class_map_missing plant) \<in> set evs
          \<and> pm plant = Some (loaded_advice env plant))
      \<and> (prevention_files env (prevention_path plant) = None \<longrightarrow>
          pm plant = Some Map.empty \<and> St_warning (Prevention_file_missing plant) \<in> set evs
          \<and> im plant = Some (loaded_inv_map env plant))
      \<and> (\<forall>m. St_error m \<notin> set evs)
      \<and> (load_plant_model_cached env plant s = (Inr (Some m), s1) \<and> m x \<noteq> [] \<longrightarrow>
          (\<exists>r s'. detect env im pm plant lang_code x s = (Detected r, s')
            \<and> (class_map_files env (class_map_path plant) = None \<longrightarrow>
                  predicted_class r = ''Unknown Disease'')
            \<and> (prevention_files env (prevention_path plant) = None \<longrightarrow>
                  prevention r = ''No prevention advice available.''))))"
proof (intro conjI allI impI)
  assume "metadata_decodes env PLANTS"
  from load_maps_ok[OF this]
  show "\<exists>im pm evs. load_class_and_prevention_maps env = (Inr (im, pm), evs)" by blast
next
  fix im pm evs
  assume r: "load_class_and_prevention_maps env = (Inr (im, pm), evs)"
    and "class_map_files env (class_map_path plant) = None"
  then show "im plant = Some Map.empty" "St_warning (Class_map_missing plant) \<in> set evs"
    using loaded_maps_at(1,3)[OF assms r]
    by (auto simp: loaded_inv_map_def plant_events_def)
  show "pm plant = Some (loaded_advice env plant)" by (rule loaded_maps_at(2)[OF assms r])
next
  fix im pm evs
  assume r: "load_class_and_prevention_maps env = (Inr (im, pm), evs)"
    and "prevention_files env (prevention_path plant) = None"
  then show "pm plant = Some Map.empty" "St_warning (Prevention_file_missing plant) \<in> set evs"
    using loaded_maps_at(2,3)[OF assms r]
    by (auto simp: loaded_advice_def plant_events_def)
  show "im plant = Some (loaded_inv_map env plant)" by (rule loaded_maps_at(1)[OF assms r])
next
  fix im pm evs ma
  assume r: "load_class_and_prevention_maps env = (Inr (im, pm), evs)"
  from loaded_maps_at(4)[OF assms r] show "St_error ma \<notin> set evs" by blast
next
  fix im pm evs
  assume r: "load_class_and_prevention_maps env = (Inr (im, pm), evs)"
    and h: "load_plant_model_cached env plant s = (Inr (Some m), s1) \<and> m x \<noteq> []"
  then obtain i where i: "np_argmax (m x) = Inr i" "i < length (m x)"
    using np_argmax_first_max[of "m x"] by blast
  from h have lm: "load_plant_model_cached env plant s = (Inr (Some m), s1)" by simp
  note dp = detect_present[OF lm i, of im pm lang_code]
  have a: "class_map_files env (class_map_path plant) = None \<longrightarrow>
      label_of im plant i = ''Unknown Disease''"
    using loaded_maps_at(1)[OF assms r]
    by (simp add: label_of_def dict_get_def loaded_inv_map_def)
  have b: "prevention_files env (prevention_path plant) = None \<longrightarrow>
      advice_of pm plant (label_of im plant i) = ''No prevention advice available.''"
    using loaded_maps_at(2)[OF assms r]
    by (simp add: advice_of_def dict_get_def loaded_advice_def)
  show "\<exists>r s'. detect env im pm plant lang_code x s = (Detected r, s')
          \<and> (class_map_files env (class_map_path plant) = None \<longrightarrow>
                predicted_class r = ''Unknown Disease'')
          \<and> (prevention_files env (prevention_path plant) = None \<longrightarrow>
                prevention r = ''No prevention advice available.'')"
    unfolding dp using a b by simp
qed

theorem missing_metadata_degrades_witness:
  "''tomato'' \<in> set PLANTS
   \<and> metadata_decodes tomato_env PLANTS
   \<and> class_map_files tomato_env (class_map_path ''tomato'') = None
   \<and> prevention_files tomato_env (prevention_path ''tomato'') = None
   \<and> (\<exists>im pm evs. load_class_and_prevention_maps tomato_env = (Inr (im, pm), evs)
        \<and> im ''tomato'' = Some Map.empty \<and> pm ''tomato'' = Some Map.empty
        \<and> St_warning (Class_map_missing ''tomato'') \<in> set evs
        \<and> St_warning (Prevention_file_missing ''tomato'') \<in> set evs
        \<and> (\<exists>r s'. detect tomato_env im pm ''tomato'' ''en'' () initial = (Detected r, s')
              \<and> predicted_class r = ''Unknown Disease''
              \<and> prevention r = ''No prevention advice available.''))"
proof -
  have a: "''tomato'' \<in> set PLANTS" by (simp add: PLANTS_def)
  have d: "metadata_decodes tomato_env PLANTS"
    by (simp add: metadata_decodes_def tomato_env_def)
  have c: "class_map_files tomato_env (class_map_path ''tomato'') = None"
    by (simp add: tomato_env_def)
  have p: "prevention_files tomato_env (prevention_path ''tomato'') = None"
    by (simp add: tomato_env_def)
  have n: "(\<lambda>x::unit. [0.2, 0.8::real]) () \<noteq> []" by simp
  note t = missing_metadata_degrades[OF a, of tomato_env initial "\<lambda>x. [0.2, 0.8]"
      "snd (load_plant_model_cached tomato_env ''tomato'' initial)" "()" "''en''"]
  from t d obtain im pm evs where
    r: "load_class_and_prevention_maps tomato_env = (Inr (im, pm), evs)" by blast
  from t r c p n tomato_model_loaded
  have "im ''tomato'' = Some Map.empty \<and> pm ''tomato'' = Some Map.empty
        \<and> St_warning (Class_map_missing ''tomato'') \<in> set evs
        \<and> St_warning (Prevention_file_missing ''tomato'') \<in> set evs
        \<and> (\<exists>r s'. detect tomato_env im pm ''tomato'' ''en'' () initial = (Detected r, s')
              \<and> predicted_class r = ''Unknown Disease''
              \<and> prevention r = ''No prevention advice available.'')"
    by blast
  with a d c p r show ?thesis by blast
qed

subsection \<open>The events of a run\<close>

lemma emit_emit [simp]: "emit b (emit a s) = emit (a @ b) s"
  by (simp add: emit_def)

lemma emit_nothing [simp]: "emit [] s = s"
  by (simp add: emit_def)

lemma translate_text_events:
  "e \<in> set (snd (translate_text env text lang)) \<Longrightarrow> \<exists>t. e = Translate lang t"
  by (auto simp: translate_text_def split: if_splits option.splits)

lemma detect_state:
  "\<exists>evs. snd (detect env im pm plant lang x s) =
      emit evs (snd (load_plant_model_cached env plant s))
    \<and> (\<forall>e \<in> set evs. e = St_error Model_could_not_be_loaded \<or> e = Predict plant
          \<or> (\<exists>t. e = Translate lang t))"
proof -
  obtain res s1 where l: "load_plant_model_cached env plant s = (res, s1)"
    by (cases "load_plant_model_cached env plant s")
  show ?thesis
  proof (cases res)
    case (Inl e)
    with l have "snd (detect env im pm plant lang x s) = s1"
      by (simp add: detect_raised)
    with l show ?thesis by (intro exI[of _ "[]"]) simp
  next
    case (Inr mo)
    show ?thesis
    proof (cases mo)
      case None
      with l Inr have "snd (detect env im pm plant lang x s) =
          emit [St_error Model_could_not_be_loaded] s1"
        by (simp add: detect_absent)
      with l show ?thesis by fastforce
    next
      case (Some m)
      show ?thesis
      proof (cases "m x = []")
        case True
        with l Inr Some have "snd (detect env im pm plant lang x s) = emit [Predict plant] s1"
          by (simp add: detect_empty)
        with l show ?thesis by fastforce
      next
        case False
        from np_argmax_first_max[OF False] obtain i where
          i: "np_argmax (m x) = Inr i" "i < length (m x)" by blast
        from l Inr Some have lm: "load_plant_model_cached env plant s = (Inr (Some m), s1)"
          by simp
        let ?a = "snd (translate_text env (replace_underscores (label_of im plant i)) lang)"
        let ?b = "snd (translate_text env (advice_of pm plant (label_of im plant i)) lang)"
        have "snd (detect env im pm plant lang x s) = emit ([Predict plant] @ ?a @ ?b) s1"
          by (simp add: detect_present[OF lm i])
        moreover have "\<forall>e \<in> set ([Predict plant] @ ?a @ ?b).
            e = St_error Model_could_not_be_loaded \<or> e = Predict plant
            \<or> (\<exists>t. e = Translate lang t)"
          using translate_text_events by fastforce
        ultimately show ?thesis using l by (metis snd_conv)
      qed
    qed
  qed
qed

lemma selectbox_mem: "selectbox options i = Some v \<Longrightarrow> v \<in> set options"
  by (auto simp: selectbox_def split: if_splits)

lemma script_run_state:
  "snd (script_run env u s) = snd (load_class_and_prevention_maps_cached env s)
   \<or> (\<exists>plant lang x im pm.
        detect_button u \<and> uploaded_file u = Some x
        \<and> selectbox PLANTS (plant_choice u) = Some plant
        \<and> snd (script_run env u s) =
            snd (detect env im pm plant lang x
                  (snd (load_class_and_prevention_maps_cached env s))))"
proof -
  obtain res s0 where l: "load_class_and_prevention_maps_cached env s = (res, s0)"
    by (cases "load_class_and_prevention_maps_cached env s")
  show ?thesis
  proof (cases res)
    case (Inl e)
    then show ?thesis by (simp add: script_run_def l)
  next
    case (Inr v)
    then obtain im pm where "res = Inr (im, pm)" by (cases v) auto
    then show ?thesis
      by (auto simp: script_run_def l split: option.splits)
  qed
qed

lemma cached_model_maps_cache [simp]:
  "maps_cache (snd (load_plant_model_cached env plant_name s)) = maps_cache s"
proof (cases "model_cache s plant_name")
  case None
  then show ?thesis by (rule load_plant_model_cached_miss(4))
next
  case (Some entry)
  then show ?thesis by (cases entry) (simp add: load_plant_model_cached_hit)
qed

lemma cached_maps_model_cache [simp]:
  "model_cache (snd (load_class_and_prevention_maps_cached env s)) = model_cache s"
proof (cases "maps_cache s")
  case None
  then show ?thesis by (rule load_maps_cached_miss(4))
next
  case (Some entry)
  then show ?thesis by (cases entry) (auto simp: load_maps_cached_hit)
qed

lemma cached_model_present:
  assumes "fst (load_plant_model_cached env plant_name s) = Inr v"
  shows "model_cache (snd (load_plant_model_cached env plant_name s)) plant_name \<noteq> None"
proof (cases "model_cache s plant_name")
  case None
  from assms load_plant_model_cached_miss(1)[OF None, of env]
  have "fst (load_plant_model env plant_name) = Inr v" by simp
  then show ?thesis by (simp add: load_plant_model_cached_miss(3)[OF None])
next
  case (Some entry)
  then show ?thesis by (cases entry) (simp add: load_plant_model_cached_hit)
qed

lemma cached_maps_present:
  assumes "fst (load_class_and_prevention_maps_cached env s) = Inr v"
  shows "maps_cache (snd (load_class_and_prevention_maps_cached env s)) \<noteq> None"
proof (cases "maps_cache s")
  case None
  from assms load_maps_cached_miss(1)[OF None, of env]
  have "fst (load_class_and_prevention_maps env) = Inr v" by simp
  then show ?thesis by (cases v) (simp add: load_maps_cached_miss(3)[OF None])
next
  case (Some entry)
  then show ?thesis by (cases entry) (auto simp: load_maps_cached_hit)
qed

lemma model_raise_not_cached:
  assumes "fst (load_plant_model_cached env plant_name s) = Inl e"
  shows "model_cache s plant_name = None"
    and "model_cache (snd (load_plant_model_cached env plant_name s)) = model_cache s"
    and "model_files env (model_path plant_name) = Some (Corrupt e)"
    and "trace (snd (load_plant_model_cached env plant_name s)) =
          trace s @ [Keras_load (model_path plant_name)]"
proof -
  show n: "model_cache s plant_name = None"
  proof (cases "model_cache s plant_name")
    case None
    then show ?thesis .
  next
    case (Some entry)
    with assms show ?thesis by (cases entry) (simp add: load_plant_model_cached_hit)
  qed
  note m = load_plant_model_cached_miss[OF n, of env]
  from assms m(1) have f: "fst (load_plant_model env plant_name) = Inl e" by simp
  then show "model_cache (snd (load_plant_model_cached env plant_name s)) = model_cache s"
    by (simp add: m(3))
  from f show c: "model_files env (model_path plant_name) = Some (Corrupt e)"
    by (auto simp: load_plant_model_def split: option.splits content.splits)
  show "trace (snd (load_plant_model_cached env plant_name s)) =
          trace s @ [Keras_load (model_path plant_name)]"
    by (simp add: m(2) load_plant_model_def c)
qed

lemma maps_raise_not_cached:
  assumes "fst (load_class_and_prevention_maps_cached env s) = Inl e"
  shows "maps_cache s = None"
    and "maps_cache (snd (load_class_and_prevention_maps_cached env s)) = maps_cache s"
proof -
  show n: "maps_cache s = None"
  proof (cases "maps_cache s")
    case None
    then show ?thesis .
  next
    case (Some entry)
    with assms show ?thesis by (cases entry) (auto simp: load_maps_cached_hit)
  qed
  from assms load_maps_cached_miss(1)[OF n, of env]
  have "fst (load_class_and_prevention_maps env) = Inl e" by simp
  then show "maps_cache (snd (load_class_and_prevention_maps_cached env s)) = maps_cache s"
    by (simp add: load_maps_cached_miss(3)[OF n] n)
qed

text \<open>The caches agree with the files after every run.\<close>

lemma detect_consistent:
  assumes "cache_consistent env s"
  shows "cache_consistent env (snd (detect env im pm plant lang x s))"
proof -
  from detect_state[of env im pm plant lang x s] obtain evs where
    "snd (detect env im pm plant lang x s) =
        emit evs (snd (load_plant_model_cached env plant s))"
    by blast
  then show ?thesis using cached_model_consistent[OF assms] by simp
qed

lemma script_run_consistent:
  assumes "cache_consistent env s"
  shows "cache_consistent env (snd (script_run env u s))"
  using script_run_state[of env u s] cached_maps_consistent[OF assms] detect_consistent
  by auto

lemma session_consistent:
  "cache_consistent env s \<Longrightarrow> cache_consistent env (session env us s)"
  by (induction us arbitrary: s) (simp_all add: script_run_consistent)

lemma cache_consistent_session: "cache_consistent env (session env us initial)"
  by (rule session_consistent[OF cache_consistent_initial])

subsection \<open>Every file is loaded at most once\<close>

lemma plant_events_loads:
  "e \<in> set (plant_events env plant) \<Longrightarrow> is_load e
    \<Longrightarrow> e = Read_json (class_map_path plant) \<or> e = Read_json (prevention_path plant)"
  by (auto simp: plant_events_def split: option.splits)

lemma distinct_plant_loads:
  assumes "plant \<in> set PLANTS"
  shows "distinct (filter is_load (plant_events env plant))"
  using class_map_path_not_prevention_path[OF assms assms]
  by (simp add: plant_events_def split: option.splits)

lemma distinct_loads_of:
  assumes "set plants \<subseteq> set PLANTS" and "distinct plants"
  shows "distinct (filter is_load (concat (map (plant_events env) plants)))"
  using assms
proof (induction plants)
  case Nil
  show ?case by simp
next
  case (Cons p plants)
  from Cons.prems have p: "p \<in> set PLANTS" and ps: "set plants \<subseteq> set PLANTS"
    and np: "p \<notin> set plants" and d: "distinct plants"
    by auto
  have "set (filter is_load (plant_events env p))
      \<inter> set (filter is_load (concat (map (plant_events env) plants))) = {}"
  proof (rule ccontr)
    assume "set (filter is_load (plant_events env p))
      \<inter> set (filter is_load (concat (map (plant_events env) plants))) \<noteq> {}"
    then obtain e where e1: "e \<in> set (plant_events env p)" and l: "is_load e"
      and e2: "e \<in> set (concat (map (plant_events env) plants))"
      by auto
    from e2 obtain q where q: "q \<in> set plants" and e3: "e \<in> set (plant_events env q)"
      by auto
    from q ps have qP: "q \<in> set PLANTS" by blast
    from plant_events_loads[OF e1 l] plant_events_loads[OF e3 l]
    have "class_map_path p = class_map_path q \<or> prevention_path p = prevention_path q
        \<or> class_map_path p = prevention_path q \<or> class_map_path q = prevention_path p"
      by auto
    then have "p = q"
      using class_map_path_inj[OF p qP] prevention_path_inj[OF p qP]
        class_map_path_not_prevention_path[OF p qP] class_map_path_not_prevention_path[OF qP p]
      by blast
    with q np show False by simp
  qed
  with distinct_plant_loads[OF p] Cons.IH[OF ps d] show ?case by simp
qed

lemma distinct_loads_PLANTS:
  "distinct (filter is_load (concat (map (plant_events env) PLANTS)))"
  by (rule distinct_loads_of) (simp_all add: distinct_PLANTS)

lemma loads_are_reads:
  assumes "e \<in> set (concat (map (plant_events env) plants))" and "is_load e"
  shows "\<exists>p. e = Read_json p"
proof -
  from assms(1) obtain q where "e \<in> set (plant_events env q)" by auto
  from plant_events_loads[OF this assms(2)] show ?thesis by blast
qed

lemma loads_cached_initial: "loads_cached initial"
  by (simp add: loads_cached_def initial_def)

lemma loads_cached_emit:
  assumes "loads_cached s" and "\<forall>e \<in> set evs. \<not> is_load e"
  shows "loads_cached (emit evs s)"
proof -
  from assms(2) have f: "filter is_load evs = []" by (simp add: filter_empty_conv)
  from assms(2) have k: "\<And>p. Keras_load p \<notin> set evs" and r: "\<And>p. Read_json p \<notin> set evs"
    by fastforce+
  from assms(1) show ?thesis
    unfolding loads_cached_def by (simp add: f k r)
qed

lemma elements_not_loads: "\<forall>e \<in> set (filter is_element evs). \<not> is_load e"
proof
  fix e
  assume "e \<in> set (filter is_element evs)"
  then have "is_element e" by simp
  then show "\<not> is_load e" by (cases e) simp_all
qed

lemma files_load_metadata: "files_load env \<Longrightarrow> metadata_decodes env PLANTS"
  by (simp add: files_load_def)

lemma files_load_model:
  assumes "files_load env" and "plant \<in> set PLANTS"
  shows "\<exists>v. fst (load_plant_model env plant) = Inr v"
  using assms
  by (auto simp: files_load_def load_plant_model_def split: option.splits content.splits)

lemma loads_cached_maps:
  assumes c: "cache_consistent env s" and i: "loads_cached s"
    and d: "metadata_decodes env PLANTS"
  shows "loads_cached (snd (load_class_and_prevention_maps_cached env s))"
proof (cases "maps_cache s")
  case None
  let ?E = "concat (map (plant_events env) PLANTS)"
  let ?s' = "snd (load_class_and_prevention_maps_cached env s)"
  note ok = load_maps_ok[OF d]
  have t: "trace ?s' = trace s @ ?E" using cached_maps_trace[OF c] None by (simp add: ok)
  have nr: "\<And>p. Read_json p \<notin> set (trace s)"
    using i None by (auto simp: loads_cached_def)
  have nk: "\<And>p. Keras_load p \<notin> set ?E"
  proof
    fix p
    assume "Keras_load p \<in> set ?E"
    from loads_are_reads[OF this] show False by simp
  qed
  have disj: "set (filter is_load (trace s)) \<inter> set (filter is_load ?E) = {}"
  proof (rule ccontr)
    assume "set (filter is_load (trace s)) \<inter> set (filter is_load ?E) \<noteq> {}"
    then obtain e where e1: "e \<in> set (trace s)" and e2: "e \<in> set ?E" and l: "is_load e"
      by auto
    from loads_are_reads[OF e2 l] obtain p where "e = Read_json p" by blast
    with e1 nr show False by simp
  qed
  have "distinct (filter is_load (trace ?s'))"
    using i distinct_loads_PLANTS[of env] disj by (simp add: t loads_cached_def)
  moreover have "\<forall>p. Keras_load p \<in> set (trace ?s') \<longrightarrow>
      (\<exists>plant \<in> set PLANTS. p = model_path plant \<and> model_cache ?s' plant \<noteq> None)"
    using i nk by (simp add: t loads_cached_def)
  moreover have "maps_cache ?s' \<noteq> None"
  proof -
    have "\<exists>v. fst (load_class_and_prevention_maps_cached env s) = Inr v"
      by (simp add: load_maps_cached_miss(1)[OF None] ok)
    then show ?thesis using cached_maps_present by blast
  qed
  ultimately show ?thesis unfolding loads_cached_def by blast
next
  case (Some entry)
  then obtain im pm notices where e: "maps_cache s = Some (im, pm, notices)"
    by (cases entry) auto
  from cache_consistent_maps[OF c e]
  have "notices = filter is_element (snd (load_class_and_prevention_maps env))" by simp
  then have "\<forall>e \<in> set notices. \<not> is_load e" using elements_not_loads by blast
  from loads_cached_emit[OF i this] show ?thesis by (simp add: load_maps_cached_hit[OF e])
qed

lemma loads_cached_model:
  assumes c: "cache_consistent env s" and i: "loads_cached s" and p: "plant \<in> set PLANTS"
    and r: "fst (load_plant_model env plant) = Inr v"
  shows "loads_cached (snd (load_plant_model_cached env plant s))"
proof (cases "model_cache s plant")
  case None
  let ?s' = "snd (load_plant_model_cached env plant s)"
  note m = load_plant_model_cached_miss[OF None, of env]
  have t: "trace ?s' = trace s @ snd (load_plant_model env plant)" by (rule m(2))
  have mc: "model_cache ?s' = (model_cache s)(plant \<mapsto>
            (v, filter is_element (snd (load_plant_model env plant))))"
    by (simp add: m(3) r)
  have new: "Keras_load (model_path plant) \<notin> set (trace s)"
  proof
    assume "Keras_load (model_path plant) \<in> set (trace s)"
    with i obtain q where q: "q \<in> set PLANTS" and e: "model_path plant = model_path q"
      and h: "model_cache s q \<noteq> None"
      unfolding loads_cached_def by blast
    from model_path_inj[OF p q e] h None show False by simp
  qed
  note ev = load_plant_model_events[of env plant]
  have "distinct (filter is_load (trace ?s'))"
    using i new ev by (auto simp: t loads_cached_def)
  moreover have "\<forall>pa. Keras_load pa \<in> set (trace ?s') \<longrightarrow>
      (\<exists>plant \<in> set PLANTS. pa = model_path plant \<and> model_cache ?s' plant \<noteq> None)"
  proof (intro allI impI)
    fix pa
    assume "Keras_load pa \<in> set (trace ?s')"
    then have "Keras_load pa \<in> set (trace s) \<or> pa = model_path plant"
      using ev by (auto simp: t)
    then show "\<exists>plant \<in> set PLANTS. pa = model_path plant \<and> model_cache ?s' plant \<noteq> None"
    proof
      assume "Keras_load pa \<in> set (trace s)"
      with i obtain q where "q \<in> set PLANTS" "pa = model_path q" "model_cache s q \<noteq> None"
        unfolding loads_cached_def by blast
      then show ?thesis by (auto simp: mc)
    next
      assume "pa = model_path plant"
      with p show ?thesis by (auto simp: mc)
    qed
  qed
  moreover have "\<forall>pa. Read_json pa \<in> set (trace ?s') \<longrightarrow> maps_cache ?s' \<noteq> None"
    using i ev by (auto simp: t loads_cached_def)
  ultimately show ?thesis unfolding loads_cached_def by blast
next
  case (Some entry)
  then obtain m notices where e: "model_cache s plant = Some (m, notices)"
    by (cases entry) auto
  from cache_consistent_model[OF c e]
  have "notices = filter is_element (snd (load_plant_model env plant))" by simp
  then have "\<forall>e \<in> set notices. \<not> is_load e" using elements_not_loads by blast
  from loads_cached_emit[OF i this] show ?thesis by (simp add: load_plant_model_cached_hit[OF e])
qed

lemma detect_invariant:
  assumes "cache_consistent env s" and "loads_cached s" and "plant \<in> set PLANTS"
    and "files_load env"
  shows "loads_cached (snd (detect env im pm plant lang x s))"
proof -
  from detect_state[of env im pm plant lang x s] obtain evs where
    s: "snd (detect env im pm plant lang x s) =
        emit evs (snd (load_plant_model_cached env plant s))"
    and e: "\<forall>e \<in> set evs. e = St_error Model_could_not_be_loaded \<or> e = Predict plant
          \<or> (\<exists>t. e = Translate lang t)"
    by blast
  from e have n: "\<forall>e \<in> set evs. \<not> is_load e" by fastforce
  from files_load_model[OF assms(4,3)] obtain v where
    v: "fst (load_plant_model env plant) = Inr v" by blast
  show ?thesis
    using loads_cached_emit[OF loads_cached_model[OF assms(1,2,3) v] n] by (simp add: s)
qed

lemma script_run_invariant:
  assumes "cache_consistent env s" and "loads_cached s" and "files_load env"
  shows "loads_cached (snd (script_run env u s))"
proof -
  let ?s0 = "snd (load_class_and_prevention_maps_cached env s)"
  have c0: "cache_consistent env ?s0" by (rule cached_maps_consistent[OF assms(1)])
  have i0: "loads_cached ?s0"
    by (rule loads_cached_maps[OF assms(1,2) files_load_metadata[OF assms(3)]])
  from script_run_state[of env u s] show ?thesis
  proof
    assume "snd (script_run env u s) = ?s0"
    with i0 show ?thesis by simp
  next
    assume "\<exists>plant lang x im pm.
        detect_button u \<and> uploaded_file u = Some x
        \<and> selectbox PLANTS (plant_choice u) = Some plant
        \<and> snd (script_run env u s) = snd (detect env im pm plant lang x ?s0)"
    then obtain plant lang x im pm where
      sel: "selectbox PLANTS (plant_choice u) = Some plant"
      and r: "snd (script_run env u s) = snd (detect env im pm plant lang x ?s0)"
      by blast
    from detect_invariant[OF c0 i0 selectbox_mem[OF sel] assms(3)] r show ?thesis by simp
  qed
qed

lemma session_invariant:
  assumes "cache_consistent env s" and "loads_cached s" and "files_load env"
  shows "loads_cached (session env us s)"
  using assms(1,2)
proof (induction us arbitrary: s)
  case Nil
  then show ?case by simp
next
  case (Cons u us)
  from Cons.IH[OF script_run_consistent[OF Cons.prems(1)]
      script_run_invariant[OF Cons.prems assms(3)]]
  show ?case by simp
qed

lemma script_run_events:
  assumes "cache_consistent env s"
  shows "\<exists>evs. trace (snd (script_run env u s)) = trace s @
        (if maps_cache s = None then snd (load_class_and_prevention_maps env)
         else filter is_element (snd (load_class_and_prevention_maps env))) @ evs
      \<and> (evs = [] \<or>
          (\<exists>plant rest. detect_button u \<and> uploaded_file u \<noteq> None
             \<and> selectbox PLANTS (plant_choice u) = Some plant
             \<and> evs = (if model_cache s plant = None then snd (load_plant_model env plant)
                       else filter is_element (snd (load_plant_model env plant))) @ rest
             \<and> (\<forall>e \<in> set rest. e = St_error Model_could_not_be_loaded \<or> e = Predict plant
                   \<or> (\<exists>l t. e = Translate l t))))"
proof -
  let ?s0 = "snd (load_class_and_prevention_maps_cached env s)"
  let ?M = "if maps_cache s = None then snd (load_class_and_prevention_maps env)
         else filter is_element (snd (load_class_and_prevention_maps env))"
  have c0: "cache_consistent env ?s0" by (rule cached_maps_consistent[OF assms])
  have t0: "trace ?s0 = trace s @ ?M" by (rule cached_maps_trace[OF assms])
  from script_run_state[of env u s] show ?thesis
  proof
    assume "snd (script_run env u s) = ?s0"
    with t0 show ?thesis by simp
  next
    assume "\<exists>plant lang x im pm.
        detect_button u \<and> uploaded_file u = Some x
        \<and> selectbox PLANTS (plant_choice u) = Some plant
        \<and> snd (script_run env u s) = snd (detect env im pm plant lang x ?s0)"
    then obtain plant lang x im pm where b: "detect_button u" and f: "uploaded_file u = Some x"
      and sel: "selectbox PLANTS (plant_choice u) = Some plant"
      and r: "snd (script_run env u s) = snd (detect env im pm plant lang x ?s0)"
      by blast
    from detect_state[of env im pm plant lang x ?s0] obtain rest where
      d: "snd (detect env im pm plant lang x ?s0) =
          emit rest (snd (load_plant_model_cached env plant ?s0))"
      and e: "\<forall>e \<in> set rest. e = St_error Model_could_not_be_loaded \<or> e = Predict plant
          \<or> (\<exists>t. e = Translate lang t)"
      by blast
    let ?L = "if model_cache s plant = None then snd (load_plant_model env plant)
              else filter is_element (snd (load_plant_model env plant))"
    have "trace (snd (script_run env u s)) = trace s @ ?M @ (?L @ rest)"
      using cached_model_trace[OF c0, of plant] by (simp add: r d t0)
    moreover have "\<forall>e \<in> set rest. e = St_error Model_could_not_be_loaded \<or> e = Predict plant
          \<or> (\<exists>l t. e = Translate l t)"
      using e by blast
    ultimately show ?thesis using b f sel by blast
  qed
qed

lemma initial_fields [simp]:
  "maps_cache initial = None" "model_cache initial = Map.empty" "trace initial = []"
  by (simp_all add: initial_def)

lemma apple_metadata_decodes: "metadata_decodes (apple_env scores) PLANTS"
  by (simp add: metadata_decodes_def apple_env_def)

lemma apple_files_load: "files_load (apple_env scores)"
  by (simp add: files_load_def apple_metadata_decodes) (simp add: apple_env_def)

lemma apple_run:
  assumes "np_argmax scores = Inr i" and "i < length scores"
  shows "trace (snd (script_run (apple_env scores)
            \<lparr>lang_choice = 0, plant_choice = 0, uploaded_file = Some (), detect_button = True\<rparr>
            initial)) =
    concat (map (plant_events (apple_env scores)) PLANTS)
      @ [Keras_load (model_path ''apple''), Predict ''apple'']"
proof -
  let ?env = "apple_env scores"
  note ok = load_maps_ok[OF apple_metadata_decodes[of scores]]
  obtain res s0 where l0: "load_class_and_prevention_maps_cached ?env initial = (res, s0)"
    by (cases "load_class_and_prevention_maps_cached ?env initial")
  have "fst (load_class_and_prevention_maps_cached ?env initial) =
      fst (load_class_and_prevention_maps ?env)"
    by (rule load_maps_cached_miss(1)) simp
  then obtain im pm where l: "load_class_and_prevention_maps_cached ?env initial =
      (Inr (im, pm), s0)"
    using l0 by (simp add: ok)
  have t0: "trace s0 = concat (map (plant_events ?env) PLANTS)"
    using cached_maps_trace[OF cache_consistent_initial, of ?env] by (simp add: l ok)
  have m0: "model_cache s0 ''apple'' = None"
    using cached_maps_model_cache[of ?env initial] by (simp add: l)
  have mf: "model_files ?env (model_path ''apple'') = Some (Decoded (\<lambda>x. scores))"
    by (simp add: apple_env_def)
  have b: "load_plant_model ?env ''apple'' =
      (Inr (Some (\<lambda>x. scores)), [Keras_load (model_path ''apple'')])"
    by (simp add: load_plant_model_def mf)
  obtain s1 where lm: "load_plant_model_cached ?env ''apple'' s0 =
      (Inr (Some (\<lambda>x. scores)), s1)"
    using load_plant_model_cached_miss(1)[OF m0, of ?env] by (simp add: b prod_eq_iff)
  have t1: "trace s1 = trace s0 @ [Keras_load (model_path ''apple'')]"
    using load_plant_model_cached_miss(2)[OF m0, of ?env] lm by (simp add: b)
  have d: "trace (snd (detect ?env im pm ''apple'' ''en'' () s0)) =
      trace s0 @ [Keras_load (model_path ''apple''), Predict ''apple'']"
    using detect_present[where env = ?env and x = "()" and i = i and im = im and pm = pm
        and lang = "''en''", OF lm] assms
    by (simp add: translate_text_def t1)
  have "script_run ?env
      \<lparr>lang_choice = 0, plant_choice = 0, uploaded_file = Some (), detect_button = True\<rparr> initial
      = detect ?env im pm ''apple'' ''en'' () s0"
    by (simp add: script_run_def l selectbox_def lang_options_def PLANTS_def)
  with d t0 show ?thesis by simp
qed

lemma apple_class_map_read:
  "Read_json (class_map_path ''apple'') \<in>
    set (concat (map (plant_events (apple_env scores)) PLANTS))"
proof -
  have "''apple'' \<in> set PLANTS" by (simp add: PLANTS_def)
  moreover have "Read_json (class_map_path ''apple'') \<in> set (plant_events (apple_env scores) ''apple'')"
    by (simp add: plant_events_def apple_env_def)
  ultimately show ?thesis by (rule plant_events_mem)
qed

lemma second_model_call:
  assumes "cache_consistent env s" and "fst (load_plant_model_cached env plant s) = Inr v"
  shows "fst (load_plant_model_cached env plant (snd (load_plant_model_cached env plant s)))
      = fst (load_plant_model_cached env plant s)"
    and "filter is_load (new_events (snd (load_plant_model_cached env plant s))
        (snd (load_plant_model_cached env plant (snd (load_plant_model_cached env plant s))))) = []"
proof -
  let ?s1 = "snd (load_plant_model_cached env plant s)"
  have c1: "cache_consistent env ?s1" by (rule cached_model_consistent[OF assms(1)])
  show "fst (load_plant_model_cached env plant ?s1) = fst (load_plant_model_cached env plant s)"
    by (simp add: cached_model_value[OF assms(1)] cached_model_value[OF c1])
  have "new_events ?s1 (snd (load_plant_model_cached env plant ?s1)) =
      filter is_element (snd (load_plant_model env plant))"
    using cached_model_trace[OF c1, of plant] cached_model_present[OF assms(2)]
    by (intro new_events_append) simp
  then show "filter is_load (new_events ?s1 (snd (load_plant_model_cached env plant ?s1))) = []"
    by (simp only: no_load_in_elements)
qed

lemma second_maps_call:
  assumes "cache_consistent env s"
    and "fst (load_class_and_prevention_maps_cached env s) = Inr v"
  shows "fst (load_class_and_prevention_maps_cached env
            (snd (load_class_and_prevention_maps_cached env s)))
      = fst (load_class_and_prevention_maps_cached env s)"
    and "filter is_load (new_events (snd (load_class_and_prevention_maps_cached env s))
        (snd (load_class_and_prevention_maps_cached env
            (snd (load_class_and_prevention_maps_cached env s))))) = []"
proof -
  let ?s1 = "snd (load_class_and_prevention_maps_cached env s)"
  have c1: "cache_consistent env ?s1" by (rule cached_maps_consistent[OF assms(1)])
  show "fst (load_class_and_prevention_maps_cached env ?s1)
      = fst (load_class_and_prevention_maps_cached env s)"
    by (simp add: cached_maps_value[OF assms(1)] cached_maps_value[OF c1])
  have "new_events ?s1 (snd (load_class_and_prevention_maps_cached env ?s1)) =
      filter is_element (snd (load_class_and_prevention_maps env))"
    using cached_maps_trace[OF c1] cached_maps_present[OF assms(2)]
    by (intro new_events_append) simp
  then show "filter is_load (new_events ?s1
      (snd (load_class_and_prevention_maps_cached env ?s1))) = []"
    by (simp only: no_load_in_elements)
qed

lemma first_model_call:
  assumes "model_cache s plant = None" and "model_files env (model_path plant) \<noteq> None"
  shows "new_events s (snd (load_plant_model_cached env plant s)) = [Keras_load (model_path plant)]"
proof (rule new_events_append)
  from assms(2) have "snd (load_plant_model env plant) = [Keras_load (model_path plant)]"
    by (auto simp: load_plant_model_def split: content.splits)
  then show "trace (snd (load_plant_model_cached env plant s)) =
      trace s @ [Keras_load (model_path plant)]"
    by (simp add: load_plant_model_cached_miss(2)[OF assms(1)])
qed

lemma metadata_event_kinds:
  assumes "x \<in> metadata_events plant"
  shows "(\<exists>p. x = Read_json p) \<or> (\<exists>m. x = St_warning m)"
  using assms by (auto simp: metadata_events_def)

lemma lazy_model_load:
  assumes "cache_consistent env s"
    and "Keras_load p \<in> set (new_events s (snd (script_run env u s)))"
  shows "detect_button u \<and> uploaded_file u \<noteq> None
    \<and> (\<exists>plant. selectbox PLANTS (plant_choice u) = Some plant \<and> p = model_path plant
          \<and> model_cache s plant = None)"
proof -
  let ?E = "snd (load_class_and_prevention_maps env)"
  let ?M = "if maps_cache s = None then ?E else filter is_element ?E"
  from script_run_events[OF assms(1), of u] obtain evs where
    t: "trace (snd (script_run env u s)) = trace s @ ?M @ evs"
    and e: "evs = [] \<or>
          (\<exists>plant rest. detect_button u \<and> uploaded_file u \<noteq> None
             \<and> selectbox PLANTS (plant_choice u) = Some plant
             \<and> evs = (if model_cache s plant = None then snd (load_plant_model env plant)
                       else filter is_element (snd (load_plant_model env plant))) @ rest
             \<and> (\<forall>e \<in> set rest. e = St_error Model_could_not_be_loaded \<or> e = Predict plant
                   \<or> (\<exists>l t. e = Translate l t)))"
    by blast
  have n: "new_events s (snd (script_run env u s)) = ?M @ evs"
    by (rule new_events_append) (simp add: t)
  have "Keras_load p \<notin> set ?M"
  proof
    assume "Keras_load p \<in> set ?M"
    then have "Keras_load p \<in> set ?E" by (simp split: if_splits)
    from load_maps_events[OF this] metadata_event_kinds show False by blast
  qed
  with assms(2) n have k: "Keras_load p \<in> set evs" by simp
  with e obtain plant rest where b: "detect_button u" "uploaded_file u \<noteq> None"
    and sel: "selectbox PLANTS (plant_choice u) = Some plant"
    and ev: "evs = (if model_cache s plant = None then snd (load_plant_model env plant)
                       else filter is_element (snd (load_plant_model env plant))) @ rest"
    and r: "\<forall>e \<in> set rest. e = St_error Model_could_not_be_loaded \<or> e = Predict plant
                   \<or> (\<exists>l t. e = Translate l t)"
    by auto
  from r have "Keras_load p \<notin> set rest" by auto
  with k ev have "model_cache s plant = None \<and> Keras_load p \<in> set (snd (load_plant_model env plant))"
    using elements_not_loads[of "snd (load_plant_model env plant)"]
    by (auto split: if_splits)
  then have "model_cache s plant = None \<and> p = model_path plant"
    using load_plant_model_events[of env plant] by auto
  with b sel show ?thesis by blast
qed

lemma eager_maps_load:
  assumes "cache_consistent env s" and "maps_cache s = None" and "plant \<in> set PLANTS"
    and "metadata_decodes env PLANTS"
  shows "set (plant_events env plant) \<subseteq> set (new_events s (snd (script_run env u s)))"
proof -
  from script_run_events[OF assms(1), of u] assms(2) obtain evs where
    t: "trace (snd (script_run env u s)) = trace s @ concat (map (plant_events env) PLANTS) @ evs"
    by (auto simp: load_maps_ok[OF assms(4)])
  have "new_events s (snd (script_run env u s)) = concat (map (plant_events env) PLANTS) @ evs"
    by (rule new_events_append) (simp add: t)
  with assms(3) show ?thesis by auto
qed

text \<open>
  C5, as the code has it. Lazy construction per category does not hold for the
  metadata: the two maps of every registered category are loaded together by the first
  run of the script, before any category is requested: a first run with "tomato"
  selected and nothing uploaded reads the class map of "apple".
\<close>

theorem metadata_loaded_before_access:
  "selectbox PLANTS 1 = Some ''tomato''
   \<and> fst (script_run (apple_env [0.9, 0.1])
        \<lparr>lang_choice = 0, plant_choice = 1, uploaded_file = None, detect_button = False\<rparr>
        initial) = Awaiting_upload
   \<and> Read_json (class_map_path ''apple'') \<in>
       set (trace (snd (script_run (apple_env [0.9, 0.1])
        \<lparr>lang_choice = 0, plant_choice = 1, uploaded_file = None, detect_button = False\<rparr>
        initial)))"
proof -
  let ?env = "apple_env [0.9, 0.1]"
  note ok = load_maps_ok[OF apple_metadata_decodes[of "[0.9, 0.1]"]]
  obtain res s0 where l0: "load_class_and_prevention_maps_cached ?env initial = (res, s0)"
    by (cases "load_class_and_prevention_maps_cached ?env initial")
  have "fst (load_class_and_prevention_maps_cached ?env initial) =
      fst (load_class_and_prevention_maps ?env)"
    by (rule load_maps_cached_miss(1)) simp
  then obtain im pm where l: "load_class_and_prevention_maps_cached ?env initial =
      (Inr (im, pm), s0)"
    using l0 by (simp add: ok)
  have t0: "trace s0 = concat (map (plant_events ?env) PLANTS)"
    using cached_maps_trace[OF cache_consistent_initial, of ?env] by (simp add: l ok)
  have r: "script_run ?env
      \<lparr>lang_choice = 0, plant_choice = 1, uploaded_file = None, detect_button = False\<rparr> initial
      = (Awaiting_upload, s0)"
    by (simp add: script_run_def l selectbox_def lang_options_def PLANTS_def)
  have a: "selectbox PLANTS 1 = Some ''tomato''" by (simp add: selectbox_def PLANTS_def)
  have b: "Read_json (class_map_path ''apple'') \<in> set (trace s0)"
    unfolding t0 by (rule apple_class_map_read)
  show ?thesis unfolding r fst_conv snd_conv using a b by blast
qed

text \<open>
  C5, amended. When no existing file of a registered category is corrupt, every file
  is loaded at most once over any sequence of runs of one process. A cached loader
  that has returned returns the same value at its next call and loads nothing; a call
  of a cached loader that raises stores nothing in the cache. The predictor of a
  category is loaded lazily: at its first request (no cache entry yet) an existing
  model file is loaded, and a run loads a model only when Detect is pressed on an
  upload, and then only the model of the selected category, not yet cached. The
  metadata is loaded eagerly: when no existing metadata file is corrupt, the first run
  of the script (empty map cache) reads every existing class-map and advice file of
  every registered category, whichever category is selected and whether or not
  anything is requested.
\<close>

theorem resources_cached_once:
  assumes "cache_consistent env s"
  shows "(files_load env \<longrightarrow> distinct (filter is_load (trace (session env us initial))))
    \<and> ((\<exists>v. fst (load_plant_model_cached env plant s) = Inr v) \<longrightarrow>
         fst (load_plant_model_cached env plant (snd (load_plant_model_cached env plant s)))
           = fst (load_plant_model_cached env plant s)
         \<and> filter is_load (new_events (snd (load_plant_model_cached env plant s))
             (snd (load_plant_model_cached env plant
                    (snd (load_plant_model_cached env plant s))))) = [])
    \<and> ((\<exists>v. fst (load_class_and_prevention_maps_cached env s) = Inr v) \<longrightarrow>
         fst (load_class_and_prevention_maps_cached env
               (snd (load_class_and_prevention_maps_cached env s)))
           = fst (load_class_and_prevention_maps_cached env s)
         \<and> filter is_load (new_events (snd (load_class_and_prevention_maps_cached env s))
             (snd (load_class_and_prevention_maps_cached env
                    (snd (load_class_and_prevention_maps_cached env s))))) = [])
    \<and> (\<forall>e. fst (load_plant_model_cached env plant s) = Inl e \<longrightarrow>
         model_cache (snd (load_plant_model_cached env plant s)) = model_cache s)
    \<and> (\<forall>e. fst (load_class_and_prevention_maps_cached env s) = Inl e \<longrightarrow>
         maps_cache (snd (load_class_and_prevention_maps_cached env s)) = maps_cache s)
    \<and> (model_cache s plant = None \<and> model_files env (model_path plant) \<noteq> None \<longrightarrow>
         new_events s (snd (load_plant_model_cached env plant s)) = [Keras_load (model_path plant)])
    \<and> (\<forall>p. Keras_load p \<in> set (new_events s (snd (script_run env u s))) \<longrightarrow>
         detect_button u \<and> uploaded_file u \<noteq> None
         \<and> (\<exists>chosen. selectbox PLANTS (plant_choice u) = Some chosen \<and> p = model_path chosen
               \<and> model_cache s chosen = None))
    \<and> (maps_cache s = None \<and> plant \<in> set PLANTS \<and> metadata_decodes env PLANTS \<longrightarrow>
         (class_map_files env (class_map_path plant) \<noteq> None \<longrightarrow>
            Read_json (class_map_path plant) \<in> set (new_events s (snd (script_run env u s))))
         \<and> (prevention_files env (prevention_path plant) \<noteq> None \<longrightarrow>
            Read_json (prevention_path plant) \<in> set (new_events s (snd (script_run env u s)))))"
proof -
  have a: "files_load env \<longrightarrow> distinct (filter is_load (trace (session env us initial)))"
    using session_invariant[OF cache_consistent_initial loads_cached_initial, of env us]
    by (simp add: loads_cached_def)
  have b: "(\<exists>v. fst (load_plant_model_cached env plant s) = Inr v) \<longrightarrow>
         fst (load_plant_model_cached env plant (snd (load_plant_model_cached env plant s)))
           = fst (load_plant_model_cached env plant s)
         \<and> filter is_load (new_events (snd (load_plant_model_cached env plant s))
             (snd (load_plant_model_cached env plant
                    (snd (load_plant_model_cached env plant s))))) = []"
    using second_model_call[OF assms] by blast
  have c: "(\<exists>v. fst (load_class_and_prevention_maps_cached env s) = Inr v) \<longrightarrow>
         fst (load_class_and_prevention_maps_cached env
               (snd (load_class_and_prevention_maps_cached env s)))
           = fst (load_class_and_prevention_maps_cached env s)
         \<and> filter is_load (new_events (snd (load_class_and_prevention_maps_cached env s))
             (snd (load_class_and_prevention_maps_cached env
                    (snd (load_class_and_prevention_maps_cached env s))))) = []"
    using second_maps_call[OF assms] by blast
  have e: "maps_cache s = None \<and> plant \<in> set PLANTS \<and> metadata_decodes env PLANTS \<longrightarrow>
         (class_map_files env (class_map_path plant) \<noteq> None \<longrightarrow>
            Read_json (class_map_path plant) \<in> set (new_events s (snd (script_run env u s))))
         \<and> (prevention_files env (prevention_path plant) \<noteq> None \<longrightarrow>
            Read_json (prevention_path plant) \<in> set (new_events s (snd (script_run env u s))))"
  proof
    assume h: "maps_cache s = None \<and> plant \<in> set PLANTS \<and> metadata_decodes env PLANTS"
    then have sub: "set (plant_events env plant) \<subseteq> set (new_events s (snd (script_run env u s)))"
      using eager_maps_load[OF assms] by blast
    have 1: "class_map_files env (class_map_path plant) \<noteq> None \<longrightarrow>
        Read_json (class_map_path plant) \<in> set (plant_events env plant)"
      by (auto simp: plant_events_def)
    have 2: "prevention_files env (prevention_path plant) \<noteq> None \<longrightarrow>
        Read_json (prevention_path plant) \<in> set (plant_events env plant)"
      by (auto simp: plant_events_def)
    from sub 1 2 show "(class_map_files env (class_map_path plant) \<noteq> None \<longrightarrow>
            Read_json (class_map_path plant) \<in> set (new_events s (snd (script_run env u s))))
         \<and> (prevention_files env (prevention_path plant) \<noteq> None \<longrightarrow>
            Read_json (prevention_path plant) \<in> set (new_events s (snd (script_run env u s))))"
      by blast
  qed
  from a b c model_raise_not_cached(2)[of env plant s] maps_raise_not_cached(2)[of env s]
    first_model_call[of s plant env] lazy_model_load[OF assms, of _ u] e
  show ?thesis by blast
qed

lemma broken_model_raises:
  "fst (load_plant_model_cached broken_env ''apple'' initial) = Inl OSError"
  by (simp add: load_plant_model_cached_def load_plant_model_def broken_env_def initial_def)

theorem resources_cached_once_witness:
  "cache_consistent (apple_env [0.9, 0.1]) initial
   \<and> files_load (apple_env [0.9, 0.1])
   \<and> model_cache (initial :: unit process) ''apple'' = None
   \<and> model_files (apple_env [0.9, 0.1]) (model_path ''apple'') \<noteq> None
   \<and> new_events initial (snd (load_plant_model_cached (apple_env [0.9, 0.1]) ''apple'' initial))
       = [Keras_load (model_path ''apple'')]
   \<and> fst (load_plant_model_cached (apple_env [0.9, 0.1]) ''apple'' initial)
       = Inr (Some (\<lambda>x. [0.9, 0.1]))
   \<and> filter is_load
        (new_events (snd (load_plant_model_cached (apple_env [0.9, 0.1]) ''apple'' initial))
          (snd (load_plant_model_cached (apple_env [0.9, 0.1]) ''apple''
                 (snd (load_plant_model_cached (apple_env [0.9, 0.1]) ''apple'' initial))))) = []
   \<and> Keras_load (model_path ''apple'') \<in>
       set (new_events initial (snd (script_run (apple_env [0.9, 0.1])
         \<lparr>lang_choice = 0, plant_choice = 0, uploaded_file = Some (), detect_button = True\<rparr>
         initial)))
   \<and> maps_cache (initial :: unit process) = None \<and> ''apple'' \<in> set PLANTS
   \<and> metadata_decodes (apple_env [0.9, 0.1]) PLANTS
   \<and> class_map_files (apple_env [0.9, 0.1]) (class_map_path ''apple'') \<noteq> None
   \<and> Read_json (class_map_path ''apple'') \<in>
       set (new_events initial (snd (script_run (apple_env [0.9, 0.1])
         \<lparr>lang_choice = 0, plant_choice = 0, uploaded_file = Some (), detect_button = True\<rparr>
         initial)))
   \<and> distinct (filter is_load (trace (session (apple_env [0.9, 0.1])
        [\<lparr>lang_choice = 0, plant_choice = 0, uploaded_file = Some (), detect_button = True\<rparr>,
         \<lparr>lang_choice = 0, plant_choice = 0, uploaded_file = Some (), detect_button = True\<rparr>]
        initial)))
   \<and> fst (load_plant_model_cached broken_env ''apple'' initial) = Inl OSError
   \<and> model_cache (snd (load_plant_model_cached broken_env ''apple'' initial))
       = model_cache initial"
proof -
  let ?env = "apple_env [0.9, 0.1]"
  let ?u = "\<lparr>lang_choice = 0, plant_choice = 0, uploaded_file = Some (), detect_button = True\<rparr>"
  have c: "cache_consistent ?env initial" by (rule cache_consistent_initial)
  have fl: "files_load ?env" by (rule apple_files_load)
  have md: "metadata_decodes ?env PLANTS" by (rule apple_metadata_decodes)
  have m: "model_cache (initial :: unit process) ''apple'' = None" by simp
  have f: "model_files ?env (model_path ''apple'') \<noteq> None" by (simp add: apple_env_def)
  have g: "class_map_files ?env (class_map_path ''apple'') \<noteq> None" by (simp add: apple_env_def)
  have p: "''apple'' \<in> set PLANTS" by (simp add: PLANTS_def)
  have a: "np_argmax [0.9, 0.1] = Inr 0" "0 < length [0.9, 0.1 :: real]" by simp_all
  have k: "Keras_load (model_path ''apple'') \<in> set (new_events initial (snd (script_run ?env ?u initial)))"
    by (simp add: new_events_def apple_run[OF a])
  have n: "maps_cache (initial :: unit process) = None" by simp
  have v: "fst (load_plant_model_cached ?env ''apple'' initial) = Inr (Some (\<lambda>x. [0.9, 0.1]))"
    using apple_model_loaded[of "[0.9, 0.1]"] by (simp add: prod_eq_iff)
  have cb: "cache_consistent broken_env initial" by (rule cache_consistent_initial)
  note br = broken_model_raises
  from resources_cached_once[OF c, of "[?u, ?u]" "''apple''" ?u] c fl md m f g p k n v
  have 1: "new_events initial (snd (load_plant_model_cached ?env ''apple'' initial))
       = [Keras_load (model_path ''apple'')]
   \<and> filter is_load
        (new_events (snd (load_plant_model_cached ?env ''apple'' initial))
          (snd (load_plant_model_cached ?env ''apple''
                 (snd (load_plant_model_cached ?env ''apple'' initial))))) = []
   \<and> Read_json (class_map_path ''apple'') \<in>
       set (new_events initial (snd (script_run ?env ?u initial)))
   \<and> distinct (filter is_load (trace (session ?env [?u, ?u] initial)))"
    by blast
  from resources_cached_once[OF cb, of "[]" "''apple''" ?u] br
  have 2: "model_cache (snd (load_plant_model_cached broken_env ''apple'' initial))
       = model_cache initial"
    by blast
  from 1 2 c fl md m f g p k n v br show ?thesis by blast
qed

subsection \<open>The category of a request\<close>

text \<open>
  The category of a request is the choice of the selection widget among \<open>PLANTS\<close>, so
  it is always a registered category: every model load, every call of a predictor and
  every metadata read of a run is for a member of \<open>PLANTS\<close>. The script has no other
  way to receive a category, no registry check and no InvalidCategory failure (C6).
\<close>

lemma loads_for_registered_plants:
  assumes "cache_consistent env s"
  shows "(\<forall>plant. selectbox PLANTS (plant_choice u) = Some plant \<longrightarrow> plant \<in> set PLANTS)
    \<and> (\<forall>p. Keras_load p \<in> set (new_events s (snd (script_run env u s))) \<longrightarrow>
          (\<exists>plant \<in> set PLANTS. p = model_path plant))
    \<and> (\<forall>q. Predict q \<in> set (new_events s (snd (script_run env u s))) \<longrightarrow> q \<in> set PLANTS)
    \<and> (\<forall>p. Read_json p \<in> set (new_events s (snd (script_run env u s))) \<longrightarrow>
          (\<exists>plant \<in> set PLANTS. p = class_map_path plant \<or> p = prevention_path plant))"
proof -
  let ?E = "snd (load_class_and_prevention_maps env)"
  let ?M = "if maps_cache s = None then ?E else filter is_element ?E"
  from script_run_events[OF assms, of u] obtain evs where
    t: "trace (snd (script_run env u s)) = trace s @ ?M @ evs"
    and e: "evs = [] \<or>
          (\<exists>plant rest. detect_button u \<and> uploaded_file u \<noteq> None
             \<and> selectbox PLANTS (plant_choice u) = Some plant
             \<and> evs = (if model_cache s plant = None then snd (load_plant_model env plant)
                       else filter is_element (snd (load_plant_model env plant))) @ rest
             \<and> (\<forall>e \<in> set rest. e = St_error Model_could_not_be_loaded \<or> e = Predict plant
                   \<or> (\<exists>l t. e = Translate l t)))"
    by blast
  have n: "new_events s (snd (script_run env u s)) = ?M @ evs"
    by (rule new_events_append) (simp add: t)
  have M: "\<And>x. x \<in> set ?M \<Longrightarrow> \<exists>plant \<in> set PLANTS. x \<in> metadata_events plant"
  proof -
    fix x
    assume "x \<in> set ?M"
    then have "x \<in> set ?E" by (simp split: if_splits)
    from load_maps_events[OF this] show "\<exists>plant \<in> set PLANTS. x \<in> metadata_events plant" .
  qed
  have evs_kinds: "\<And>x. x \<in> set evs \<Longrightarrow>
      \<exists>plant \<in> set PLANTS. x = Keras_load (model_path plant) \<or> x = Predict plant
        \<or> (\<exists>m. x = St_error m) \<or> (\<exists>l t. x = Translate l t)"
  proof -
    fix x
    assume x: "x \<in> set evs"
    with e obtain plant rest where sel: "selectbox PLANTS (plant_choice u) = Some plant"
      and ev: "evs = (if model_cache s plant = None then snd (load_plant_model env plant)
                       else filter is_element (snd (load_plant_model env plant))) @ rest"
      and r: "\<forall>e \<in> set rest. e = St_error Model_could_not_be_loaded \<or> e = Predict plant
                   \<or> (\<exists>l t. e = Translate l t)"
      by auto
    have p: "plant \<in> set PLANTS" by (rule selectbox_mem[OF sel])
    from x ev have "x \<in> set (snd (load_plant_model env plant)) \<or> x \<in> set rest"
      by (auto split: if_splits)
    then have "x = Keras_load (model_path plant) \<or> x = Predict plant
        \<or> (\<exists>m. x = St_error m) \<or> (\<exists>l t. x = Translate l t)"
      using r load_plant_model_events[of env plant] by auto
    with p show "\<exists>plant \<in> set PLANTS. x = Keras_load (model_path plant) \<or> x = Predict plant
        \<or> (\<exists>m. x = St_error m) \<or> (\<exists>l t. x = Translate l t)"
      by blast
  qed
  have 1: "\<forall>plant. selectbox PLANTS (plant_choice u) = Some plant \<longrightarrow> plant \<in> set PLANTS"
    using selectbox_mem by fast
  have 2: "\<forall>p. Keras_load p \<in> set (new_events s (snd (script_run env u s))) \<longrightarrow>
          (\<exists>plant \<in> set PLANTS. p = model_path plant)"
  proof (intro allI impI)
    fix p
    assume "Keras_load p \<in> set (new_events s (snd (script_run env u s)))"
    then have "Keras_load p \<in> set ?M \<or> Keras_load p \<in> set evs" using n by auto
    then show "\<exists>plant \<in> set PLANTS. p = model_path plant"
    proof
      assume "Keras_load p \<in> set ?M"
      from M[OF this] show ?thesis by (auto simp: metadata_events_def)
    next
      assume "Keras_load p \<in> set evs"
      from evs_kinds[OF this] show ?thesis by auto
    qed
  qed
  have 3: "\<forall>q. Predict q \<in> set (new_events s (snd (script_run env u s))) \<longrightarrow> q \<in> set PLANTS"
  proof (intro allI impI)
    fix q
    assume "Predict q \<in> set (new_events s (snd (script_run env u s)))"
    then have "Predict q \<in> set ?M \<or> Predict q \<in> set evs" using n by auto
    then show "q \<in> set PLANTS"
    proof
      assume "Predict q \<in> set ?M"
      from M[OF this] show ?thesis by (auto simp: metadata_events_def)
    next
      assume "Predict q \<in> set evs"
      from evs_kinds[OF this] show ?thesis by auto
    qed
  qed
  have 4: "\<forall>p. Read_json p \<in> set (new_events s (snd (script_run env u s))) \<longrightarrow>
          (\<exists>plant \<in> set PLANTS. p = class_map_path plant \<or> p = prevention_path plant)"
  proof (intro allI impI)
    fix p
    assume "Read_json p \<in> set (new_events s (snd (script_run env u s)))"
    then have "Read_json p \<in> set ?M \<or> Read_json p \<in> set evs" using n by auto
    then show "\<exists>plant \<in> set PLANTS. p = class_map_path plant \<or> p = prevention_path plant"
    proof
      assume "Read_json p \<in> set ?M"
      from M[OF this] show ?thesis by (auto simp: metadata_events_def)
    next
      assume "Read_json p \<in> set evs"
      from evs_kinds[OF this] show ?thesis by auto
    qed
  qed
  from 1 2 3 4 show ?thesis by blast
qed

end
